theory Spec2Isabelle
  imports Main "HOL-Library.AList"
begin

section \<open>The Gemini backend adapter (pydantic\_ai/models/gemini.py)\<close>

text \<open>
  The definitions below follow \<^verbatim>\<open>src/pydantic_ai/models/gemini.py\<close>. A Python name
  with a leading underscore loses it (\<^verbatim>\<open>_metadata_as_cost\<close> is \<open>metadata_as_cost\<close>), since
  an Isabelle identifier cannot start with one. Exceptions are values of type \<open>error\<close>; a
  function that can raise returns \<open>error + 'a\<close>, with \<open>Inl\<close> for the exception.
\<close>

subsection \<open>Exceptions\<close>

datatype error =
    UserError string
  | UnexpectedModelBehaviour string
  | AssertionError string
  | ValidationError
  | IndexError
  | KeyError string
  | TypeError
  | AttributeError
  | RecursionError

subsection \<open>Wire types of a response\<close>

text \<open>
  \<^verbatim>\<open>dict[str, Any]\<close> payloads (the arguments of a function call, the body of a function
  response) are JSON values. Python's \<^verbatim>\<open>int\<close> is unbounded, so numbers are \<open>int\<close>.
\<close>

datatype json =
    JNull
  | JBool bool
  | JNum int
  | JStr string
  | JArr "json list"
  | JObj "(string \<times> json) list"

type_synonym json_object = "(string \<times> json) list"

text \<open>
  \<^verbatim>\<open>_GeminiPartUnion\<close> is a union of three typed dicts, each with one key; a validated part
  is one of them. \<^verbatim>\<open>'function_call' in part\<close> and \<^verbatim>\<open>'text' in part\<close> are the
  discriminators \<open>is_function_call\<close> and \<open>is_text\<close>.
\<close>

datatype GeminiPart =
    is_text: GeminiTextPart string
  | is_function_call: GeminiFunctionCallPart string json_object
  | is_function_response: GeminiFunctionResponsePart string json_object

datatype Role = User | Model

datatype FinishReason = STOP

record GeminiContent =
  role :: Role
  parts :: "GeminiPart list"

record GeminiCandidates =
  content :: GeminiContent
  finish_reason :: "FinishReason option"

record GeminiUsageMetaData =
  prompt_token_count :: "int option"
  candidates_token_count :: "int option"
  total_token_count :: "int option"
  cached_content_token_count :: "int option"

record GeminiResponse =
  candidates :: "GeminiCandidates list"
  usage_metadata :: GeminiUsageMetaData

subsection \<open>Messages, tool calls, cost and Either\<close>

text \<open>
  Modelled from the spec: the modules \<^verbatim>\<open>messages\<close>, \<^verbatim>\<open>result\<close> and \<^verbatim>\<open>_utils\<close> are
  imported by gemini.py and are not among the sources. Section 3 of the specification gives
  their shapes: a \<open>ToolCall\<close> has a tool name, arguments that are either a structured object
  (\<open>ArgsObject\<close>) or raw JSON text, and an optional id; a \<open>Cost\<close> has three optional
  counters and a details map; \<open>Either\<close> is a strict two-armed sum. A timestamp is a reading
  of the clock, an integer here.
\<close>

type_synonym datetime = int

datatype ToolArgs = ArgsObject json_object | ArgsJson string

datatype ToolCall = ToolCall string ToolArgs "string option"

datatype Message =
    SystemPrompt string datetime
  | UserPrompt string datetime
  | ToolReturn string json datetime
  | RetryPrompt "string option" string datetime
  | LLMResponse string datetime
  | LLMToolCalls "ToolCall list" datetime

datatype ('l, 'r) Either = Left 'l | Right 'r

record Cost =
  request_tokens :: "int option"
  response_tokens :: "int option"
  total_tokens :: "int option"
  details :: "(string \<times> int) list"

text \<open>\<^verbatim>\<open>ToolCall.from_object(name, args)\<close>: the constructor from a parsed object.\<close>

definition from_object :: "string \<Rightarrow> json_object \<Rightarrow> ToolCall" where
  "from_object name args_object = ToolCall name (ArgsObject args_object) None"

text \<open>\<^verbatim>\<open>ToolCall.from_json(name, args_json)\<close>: the constructor from raw JSON text.\<close>

definition from_json :: "string \<Rightarrow> string \<Rightarrow> ToolCall" where
  "from_json name args_json = ToolCall name (ArgsJson args_json) None"

subsection \<open>Cost extraction\<close>

text \<open>
  \<^verbatim>\<open>
  def _metadata_as_cost(metadata):
      details = {}
      if cached_content_token_count := metadata.get('cached_content_token_count'):
          details['cached_content_token_count'] = cached_content_token_count
      return result.Cost(
          request_tokens=metadata.get('prompt_token_count', 0),
          response_tokens=metadata.get('candidates_token_count', 0),
          total_tokens=metadata.get('total_token_count', 0),
          details=details)
  \<close>
  The condition of the \<^verbatim>\<open>if\<close> is the truth value of what \<^verbatim>\<open>get\<close> returns:
  \<^verbatim>\<open>None\<close> and \<^verbatim>\<open>0\<close> are both false.
\<close>

definition get_default :: "'a option \<Rightarrow> 'a \<Rightarrow> 'a" where
  "get_default field d = (case field of None \<Rightarrow> d | Some v \<Rightarrow> v)"

definition truthy_int :: "int option \<Rightarrow> bool" where
  "truthy_int field = (case field of None \<Rightarrow> False | Some v \<Rightarrow> v \<noteq> 0)"

definition metadata_as_cost :: "GeminiUsageMetaData \<Rightarrow> Cost" where
  "metadata_as_cost metadata =
     (let details0 = [];
          details1 =
            (if truthy_int (cached_content_token_count metadata)
             then details0 @ [(''cached_content_token_count'',
                               the (cached_content_token_count metadata))]
             else details0)
      in \<lparr> request_tokens = Some (get_default (prompt_token_count metadata) 0),
           response_tokens = Some (get_default (candidates_token_count metadata) 0),
           total_tokens = Some (get_default (total_token_count metadata) 0),
           details = details1 \<rparr>)"

subsection \<open>Construction of the model\<close>

datatype GeminiModelName =
    Gemini_1_5_flash
  | Gemini_1_5_flash_8b
  | Gemini_1_5_pro
  | Gemini_1_0_pro

record 'c GeminiModel =
  model_name :: GeminiModelName
  api_key :: string
  http_client :: 'c
  url_template :: string

text \<open>
  \<^verbatim>\<open>GeminiModel.__init__\<close>. The environment is the function \<open>getenv\<close>
  (\<^verbatim>\<open>os.getenv\<close>: \<open>None\<close> for a variable that is not set); \<open>cached_client\<close> is what
  \<^verbatim>\<open>cached_async_http_client()\<close> returns. \<^verbatim>\<open>if env_api_key := os.getenv(...)\<close> tests the
  truth value of the string, so a variable set to the empty string counts as absent. The
  test on the explicit argument is \<^verbatim>\<open>api_key is None\<close>. An HTTP client object is true,
  so \<^verbatim>\<open>http_client or cached_async_http_client()\<close> takes the argument whenever one is
  given. The constructor sends nothing: the only function of the module that opens a
  connection is \<^verbatim>\<open>_make_request\<close>, which needs a constructed model.
\<close>

definition GeminiModel_init ::
  "(string \<Rightarrow> string option) \<Rightarrow> 'c \<Rightarrow> GeminiModelName \<Rightarrow> string option \<Rightarrow> 'c option \<Rightarrow> string
     \<Rightarrow> error + 'c GeminiModel" where
  "GeminiModel_init getenv cached_client name api_key_arg http_client_arg url =
     (let key =
            (case api_key_arg of
               None \<Rightarrow>
                 (case getenv ''GEMINI_API_KEY'' of
                    None \<Rightarrow> Inl (UserError
                      ''API key must be provided or set in the GEMINI_API_KEY environment variable'')
                  | Some env_api_key \<Rightarrow>
                      if env_api_key \<noteq> [] then Inr env_api_key
                      else Inl (UserError
                      ''API key must be provided or set in the GEMINI_API_KEY environment variable''))
             | Some k \<Rightarrow> Inr k)
      in case key of
           Inl e \<Rightarrow> Inl e
         | Inr k \<Rightarrow>
             Inr \<lparr> model_name = name,
                   api_key = k,
                   http_client = (case http_client_arg of None \<Rightarrow> cached_client | Some c \<Rightarrow> c),
                   url_template = url \<rparr>)"

subsection \<open>Non-streamed responses\<close>

definition all_function_call_parts :: "GeminiPart list \<Rightarrow> bool" where
  "all_function_call_parts ps = list_all is_function_call ps"

definition all_text_parts :: "GeminiPart list \<Rightarrow> bool" where
  "all_text_parts ps = list_all is_text ps"

text \<open>
  \<^verbatim>\<open>_extract_response_parts\<close>. The message of the second error ends with the
  \<^verbatim>\<open>repr\<close> of the parts in the source; the model keeps its fixed prefix.
\<close>

definition extract_response_parts ::
  "GeminiResponse \<Rightarrow> error + (GeminiPart list, GeminiPart list) Either" where
  "extract_response_parts response =
     (if length (candidates response) \<noteq> 1
      then Inl (UnexpectedModelBehaviour ''Expected exactly one candidate in Gemini response'')
      else
        let ps = parts (content (candidates response ! 0)) in
        if all_function_call_parts ps then Inr (Left ps)
        else if all_text_parts ps then Inr (Right ps)
        else Inl (UnexpectedModelBehaviour
          ''Unsupported response from Gemini, expected all parts to be function calls or text''))"

text \<open>
  \<^verbatim>\<open>part['function_call']['name']\<close> and \<^verbatim>\<open>part['text']\<close> raise \<^verbatim>\<open>KeyError\<close> on a
  part of another kind.
\<close>

fun function_call_of :: "GeminiPart \<Rightarrow> error + ToolCall" where
  "function_call_of (GeminiFunctionCallPart name args_object) = Inr (from_object name args_object)"
| "function_call_of _ = Inl (KeyError ''function_call'')"

fun text_of :: "GeminiPart \<Rightarrow> error + string" where
  "text_of (GeminiTextPart t) = Inr t"
| "text_of _ = Inl (KeyError ''text'')"

text \<open>A comprehension or generator whose body can raise stops at the first exception.\<close>

fun map_result :: "('a \<Rightarrow> error + 'b) \<Rightarrow> 'a list \<Rightarrow> error + 'b list" where
  "map_result f [] = Inr []"
| "map_result f (x # xs) =
     (case f x of
        Inl e \<Rightarrow> Inl e
      | Inr y \<Rightarrow> (case map_result f xs of Inl e \<Rightarrow> Inl e | Inr ys \<Rightarrow> Inr (y # ys)))"

text \<open>
  \<^verbatim>\<open>_tool_call_from_parts(parts, timestamp=None)\<close>; \<open>now\<close> is what \<^verbatim>\<open>_utils.now_utc()\<close>
  returns. A \<^verbatim>\<open>datetime\<close> is always true, so \<^verbatim>\<open>timestamp or now_utc()\<close> is the
  timestamp whenever one is given.
\<close>

definition tool_call_from_parts ::
  "datetime \<Rightarrow> GeminiPart list \<Rightarrow> datetime option \<Rightarrow> error + Message" where
  "tool_call_from_parts now ps timestamp =
     (case map_result function_call_of ps of
        Inl e \<Rightarrow> Inl e
      | Inr calls \<Rightarrow> Inr (LLMToolCalls calls (case timestamp of None \<Rightarrow> now | Some t \<Rightarrow> t)))"

text \<open>
  \<^verbatim>\<open>GeminiAgentModel._process_response\<close>. \<^verbatim>\<open>either.left\<close> is a wrapper object around
  the left value, or \<^verbatim>\<open>None\<close>: the test \<^verbatim>\<open>if left := either.left\<close> asks which arm it is.
\<close>

definition process_response :: "datetime \<Rightarrow> GeminiResponse \<Rightarrow> error + Message" where
  "process_response now response =
     (case extract_response_parts response of
        Inl e \<Rightarrow> Inl e
      | Inr (Left ps) \<Rightarrow> tool_call_from_parts now ps None
      | Inr (Right ps) \<Rightarrow>
          (case map_result text_of ps of
             Inl e \<Rightarrow> Inl e
           | Inr ts \<Rightarrow> Inr (LLMResponse (concat ts) now)))"

text \<open>
  \<^verbatim>\<open>GeminiAgentModel.request\<close>, from the validated body of the HTTP response on: the pair
  of the message and the cost.
\<close>

definition request_result :: "datetime \<Rightarrow> GeminiResponse \<Rightarrow> error + (Message \<times> Cost)" where
  "request_result now response =
     (case process_response now response of
        Inl e \<Rightarrow> Inl e
      | Inr m \<Rightarrow> Inr (m, metadata_as_cost (usage_metadata response)))"

subsection \<open>Building a request\<close>

datatype GeminiFunction = GeminiFunction string string json_object

datatype GeminiTools = GeminiTools "GeminiFunction list"

datatype Mode = ANY | AUTO

datatype GeminiToolConfig = GeminiToolConfig Mode "string list"

record GeminiRequest =
  contents :: "GeminiContent list"
  tools :: "GeminiTools option"
  tool_config :: "GeminiToolConfig option"
  system_instruction :: "GeminiContent option"

definition content_user_text :: "string \<Rightarrow> GeminiContent" where
  "content_user_text t = \<lparr>role = User, parts = [GeminiTextPart t]\<rparr>"

definition content_model_text :: "string \<Rightarrow> GeminiContent" where
  "content_model_text t = \<lparr>role = Model, parts = [GeminiTextPart t]\<rparr>"

text \<open>
  \<^verbatim>\<open>
  def _function_call_part_from_call(tool):
      assert isinstance(tool.args, ArgsObject), f'Expected ArgsObject, got {tool.args}'
      return _GeminiFunctionCallPart(function_call=_GeminiFunctionCall(name=tool.tool_name, args=tool.args.args_object))
  \<close>
  The message of the assertion ends with the arguments in the source; the model keeps its
  fixed prefix.
\<close>

fun function_call_part_from_call :: "ToolCall \<Rightarrow> error + GeminiPart" where
  "function_call_part_from_call (ToolCall name (ArgsObject args_object) tid) =
     Inr (GeminiFunctionCallPart name args_object)"
| "function_call_part_from_call (ToolCall name (ArgsJson args_json) tid) =
     Inl (AssertionError ''Expected ArgsObject'')"

definition content_function_call :: "ToolCall list \<Rightarrow> error + GeminiContent" where
  "content_function_call calls =
     (case map_result function_call_part_from_call calls of
        Inl e \<Rightarrow> Inl e
      | Inr ps \<Rightarrow> Inr \<lparr>role = Model, parts = ps\<rparr>)"

definition response_part_from_response :: "string \<Rightarrow> json_object \<Rightarrow> GeminiPart" where
  "response_part_from_response name response = GeminiFunctionResponsePart name response"

text \<open>
  The methods \<^verbatim>\<open>ToolReturn.model_response_object\<close> and \<^verbatim>\<open>RetryPrompt.model_response\<close>
  belong to the \<^verbatim>\<open>messages\<close> module; they are the parameters \<open>model_response_object\<close>
  and \<open>model_response\<close> of the functions below.
\<close>

definition content_function_return ::
  "(json \<Rightarrow> json_object) \<Rightarrow> string \<Rightarrow> json \<Rightarrow> GeminiContent" where
  "content_function_return model_response_object tool_name c =
     \<lparr>role = User, parts = [response_part_from_response tool_name (model_response_object c)]\<rparr>"

definition content_function_retry ::
  "(string \<Rightarrow> string) \<Rightarrow> string option \<Rightarrow> string \<Rightarrow> GeminiContent" where
  "content_function_retry model_response tool_name c =
     (case tool_name of
        None \<Rightarrow> \<lparr>role = User, parts = [GeminiTextPart (model_response c)]\<rparr>
      | Some name \<Rightarrow>
          \<lparr>role = User,
           parts = [response_part_from_response name
                      [(''call_error'', JStr (model_response c))]]\<rparr>)"

text \<open>\<^verbatim>\<open>GeminiAgentModel._message_to_gemini\<close>: one branch for each role.\<close>

fun message_to_gemini ::
  "(json \<Rightarrow> json_object) \<Rightarrow> (string \<Rightarrow> string) \<Rightarrow> Message
     \<Rightarrow> error + (GeminiPart, GeminiContent) Either" where
  "message_to_gemini mro mr (SystemPrompt c ts) = Inr (Left (GeminiTextPart c))"
| "message_to_gemini mro mr (UserPrompt c ts) = Inr (Right (content_user_text c))"
| "message_to_gemini mro mr (ToolReturn tool_name c ts) =
     Inr (Right (content_function_return mro tool_name c))"
| "message_to_gemini mro mr (RetryPrompt tool_name c ts) =
     Inr (Right (content_function_retry mr tool_name c))"
| "message_to_gemini mro mr (LLMResponse c ts) = Inr (Right (content_model_text c))"
| "message_to_gemini mro mr (LLMToolCalls calls ts) =
     (case content_function_call calls of Inl e \<Rightarrow> Inl e | Inr c \<Rightarrow> Inr (Right c))"

text \<open>
  The loop of \<^verbatim>\<open>_make_request\<close> over the messages, with its two accumulators
  \<^verbatim>\<open>contents\<close> and \<^verbatim>\<open>sys_prompt_parts\<close>.
\<close>

fun split_messages ::
  "(json \<Rightarrow> json_object) \<Rightarrow> (string \<Rightarrow> string) \<Rightarrow> Message list
     \<Rightarrow> GeminiContent list \<Rightarrow> GeminiPart list
     \<Rightarrow> error + (GeminiContent list \<times> GeminiPart list)" where
  "split_messages mro mr [] cs sys_prompt_parts = Inr (cs, sys_prompt_parts)"
| "split_messages mro mr (m # ms) cs sys_prompt_parts =
     (case message_to_gemini mro mr m of
        Inl e \<Rightarrow> Inl e
      | Inr (Left l) \<Rightarrow> split_messages mro mr ms cs (sys_prompt_parts @ [l])
      | Inr (Right r) \<Rightarrow> split_messages mro mr ms (cs @ [r]) sys_prompt_parts)"

text \<open>
  \<^verbatim>\<open>_make_request\<close> up to the value \<^verbatim>\<open>request_data\<close> that is serialised and posted;
  \<open>self_tools\<close> and \<open>self_tool_config\<close> are the fields of the agent model.
\<close>

definition make_request_data ::
  "(json \<Rightarrow> json_object) \<Rightarrow> (string \<Rightarrow> string) \<Rightarrow> GeminiTools option \<Rightarrow> GeminiToolConfig option
     \<Rightarrow> Message list \<Rightarrow> error + GeminiRequest" where
  "make_request_data mro mr self_tools self_tool_config messages =
     (case split_messages mro mr messages [] [] of
        Inl e \<Rightarrow> Inl e
      | Inr (cs, sys_prompt_parts) \<Rightarrow>
          Inr \<lparr> contents = cs,
                tools = self_tools,
                tool_config = self_tool_config,
                system_instruction =
                  (if sys_prompt_parts \<noteq> []
                   then Some \<lparr>role = User, parts = sys_prompt_parts\<rparr> else None) \<rparr>)"

subsection \<open>Streamed responses\<close>

text \<open>
  The bytes received so far are a string. \<^verbatim>\<open>_gemini_streamed_response_ta.validate_json\<close>
  with \<^verbatim>\<open>experimental_allow_partial=True\<close> is the validator of the Pydantic library: it
  is the parameter \<open>validate_json\<close> of the functions below, from the buffer to the list of
  responses read so far, or to a validation error. The byte stream is the list of the
  chunks it will deliver.
\<close>

type_synonym bytes = string

type_synonym validator = "bytes \<Rightarrow> error + GeminiResponse list"


record GeminiStreamToolCallResponse =
  sc_content :: bytes
  sc_stream :: "bytes list"
  sc_timestamp :: datetime





text \<open>
  The loop of \<^verbatim>\<open>GeminiStreamToolCallResponse.get\<close>. \<^verbatim>\<open>r['candidates'][0]\<close> raises
  \<^verbatim>\<open>IndexError\<close> on an empty list; \<^verbatim>\<open>candidate.get('finish_reason')\<close> is \<^verbatim>\<open>None\<close> for
  an absent reason and the true string \<^verbatim>\<open>'STOP'\<close> otherwise.
  \<^verbatim>\<open>
  for r in responses:
      candidate = r['candidates'][0]
      parts = candidate['content']['parts']
      if all_function_call_parts(parts):
          combined_parts.extend(parts)
      elif not candidate.get('finish_reason'):
          # you can get an empty text part along with the finish_reason, so we ignore that case
          raise UnexpectedModelBehaviour(...)
  \<close>
\<close>

fun combine_parts :: "GeminiResponse list \<Rightarrow> GeminiPart list \<Rightarrow> error + GeminiPart list" where
  "combine_parts [] combined_parts = Inr combined_parts"
| "combine_parts (r # rs) combined_parts =
     (case candidates r of
        [] \<Rightarrow> Inl IndexError
      | candidate # others \<Rightarrow>
          let ps = parts (content candidate) in
          if all_function_call_parts ps then combine_parts rs (combined_parts @ ps)
          else if finish_reason candidate = None
          then Inl (UnexpectedModelBehaviour
            ''Streamed response with unexpected content, expected all parts to be function calls'')
          else combine_parts rs combined_parts)"

definition get ::
  "validator \<Rightarrow> datetime \<Rightarrow> GeminiStreamToolCallResponse \<Rightarrow> error + Message" where
  "get validate_json now self =
     (case validate_json (sc_content self) of
        Inl e \<Rightarrow> Inl e
      | Inr responses \<Rightarrow>
          (case combine_parts responses [] of
             Inl e \<Rightarrow> Inl e
           | Inr combined_parts \<Rightarrow>
               tool_call_from_parts now combined_parts (Some (sc_timestamp self))))"

text \<open>\<^verbatim>\<open>GeminiStreamToolCallResponse.__anext__\<close>: the next chunk goes into the buffer.\<close>

definition anext ::
  "GeminiStreamToolCallResponse \<Rightarrow> GeminiStreamToolCallResponse option" where
  "anext self =
     (case sc_stream self of
        [] \<Rightarrow> None
      | chunk # rest \<Rightarrow> Some (self\<lparr>sc_content := sc_content self @ chunk, sc_stream := rest\<rparr>))"

subsection \<open>Notions used in the statements\<close>

text \<open>
  \<^verbatim>\<open>isinstance(tool.args, ArgsObject)\<close>, and the calls a message carries (none unless it is
  an \<open>LLMToolCalls\<close>).
\<close>

fun is_args_object :: "ToolCall \<Rightarrow> bool" where
  "is_args_object (ToolCall name (ArgsObject args_object) tid) = True"
| "is_args_object (ToolCall name (ArgsJson args_json) tid) = False"

fun tool_calls_of :: "Message \<Rightarrow> ToolCall list" where
  "tool_calls_of (LLMToolCalls calls ts) = calls"
| "tool_calls_of _ = []"

text \<open>
  The parts that \<^verbatim>\<open>get\<close> reads from a response, \<^verbatim>\<open>r['candidates'][0]['content']['parts']\<close>,
  for a response that has a candidate.
\<close>

definition candidate_parts :: "GeminiResponse \<Rightarrow> GeminiPart list" where
  "candidate_parts r = parts (content (hd (candidates r)))"


subsection \<open>Example values\<close>

text \<open>
  Four responses: a function call without finish reason, a text with the finish reason, a
  text without finish reason, and the empty terminator with the finish reason. The
  validator \<open>validate_example\<close> reads nothing from a buffer other than \<open>ab\<close> and
  \<open>abcd\<close>.
\<close>

definition r_call :: GeminiResponse where
  "r_call = \<lparr>candidates = [\<lparr>content = \<lparr>role = Model,
                 parts = [GeminiFunctionCallPart ''final_result'' [(''x'', JNum 1)]]\<rparr>,
               finish_reason = None\<rparr>],
             usage_metadata = \<lparr>prompt_token_count = None, candidates_token_count = None,
               total_token_count = None, cached_content_token_count = None\<rparr>\<rparr>"

definition r_stop_text :: GeminiResponse where
  "r_stop_text = \<lparr>candidates = [\<lparr>content = \<lparr>role = Model,
                 parts = [GeminiTextPart ''done'']\<rparr>,
               finish_reason = Some STOP\<rparr>],
             usage_metadata = \<lparr>prompt_token_count = None, candidates_token_count = None,
               total_token_count = None, cached_content_token_count = None\<rparr>\<rparr>"

definition r_text :: GeminiResponse where
  "r_text = \<lparr>candidates = [\<lparr>content = \<lparr>role = Model,
                 parts = [GeminiTextPart ''Hello'']\<rparr>,
               finish_reason = None\<rparr>],
             usage_metadata = \<lparr>prompt_token_count = None, candidates_token_count = None,
               total_token_count = None, cached_content_token_count = None\<rparr>\<rparr>"



subsection \<open>Python values and the store\<close>

text \<open>
  The schema simplifier mutates dictionaries in place and copies references between them
  (\<^verbatim>\<open>schema.update(schema_def)\<close> makes the two dictionaries share their nested values),
  so a dictionary is an object with an address, and the store maps addresses to the
  contents of the dictionaries. A dictionary keeps its keys in insertion order: it is an
  association list with distinct keys. Lists are never modified by the code and are
  values here; a list can hold references to dictionaries. Numbers are integers: the
  simplifier only ever asks whether a number is zero.
\<close>

type_synonym addr = nat

datatype pyval =
    PNone
  | PBool bool
  | PInt int
  | PStr string
  | PList "pyval list"
  | PDict addr

type_synonym pydict = "(string \<times> pyval) list"

type_synonym store = "addr \<Rightarrow> pydict"

text \<open>The truth value of a Python value; a dictionary is true when it is not empty.\<close>

fun truthy :: "store \<Rightarrow> pyval \<Rightarrow> bool" where
  "truthy s PNone = False"
| "truthy s (PBool b) = b"
| "truthy s (PInt i) = (i \<noteq> 0)"
| "truthy s (PStr t) = (t \<noteq> [])"
| "truthy s (PList xs) = (xs \<noteq> [])"
| "truthy s (PDict a) = (s a \<noteq> [])"

text \<open>\<^verbatim>\<open>d.get(k)\<close>, with the default \<^verbatim>\<open>None\<close>.\<close>

definition dict_get :: "pydict \<Rightarrow> string \<Rightarrow> pyval" where
  "dict_get d k = (case map_of d k of None \<Rightarrow> PNone | Some v \<Rightarrow> v)"

text \<open>
  \<^verbatim>\<open>schema.pop(k, None)\<close> on the dictionary at address \<open>a\<close>: the key is removed if it
  is there. What it returns is read with \<open>dict_get\<close> before the call.
\<close>

definition pop :: "addr \<Rightarrow> string \<Rightarrow> store \<Rightarrow> store" where
  "pop a k s = (case map_of (s a) k of None \<Rightarrow> s | Some v \<Rightarrow> s(a := AList.delete k (s a)))"

text \<open>
  \<^verbatim>\<open>d.update(other)\<close>: a key that \<open>d\<close> has keeps its place and takes the new value, a
  new key goes to the end.
\<close>

definition dict_update :: "pydict \<Rightarrow> pydict \<Rightarrow> pydict" where
  "dict_update d other = foldl (\<lambda>acc (k, v). AList.update k v acc) d other"

text \<open>\<^verbatim>\<open>re.sub(r'^#/\$defs/', '', ref)\<close>: the prefix is removed when the string has it.\<close>

definition defs_key :: "string \<Rightarrow> string" where
  "defs_key ref = (if take 8 ref = ''#/$defs/'' then drop 8 ref else ref)"

text \<open>
  \<^verbatim>\<open>self.defs[key]\<close>: \<^verbatim>\<open>KeyError\<close> for a dictionary without the key, \<^verbatim>\<open>TypeError\<close>
  for a value that is not a dictionary (a string key indexes no list, string or number).
\<close>

definition subscript :: "store \<Rightarrow> pyval \<Rightarrow> string \<Rightarrow> error + pyval" where
  "subscript s v key =
     (case v of
        PDict a \<Rightarrow> (case map_of (s a) key of None \<Rightarrow> Inl (KeyError key) | Some x \<Rightarrow> Inr x)
      | _ \<Rightarrow> Inl TypeError)"

text \<open>
  What \<^verbatim>\<open>for x in v\<close> goes through: the elements of a list, the keys of a dictionary, the
  characters of a string; \<^verbatim>\<open>TypeError\<close> for a value that is not iterable.
\<close>

definition iterate :: "store \<Rightarrow> pyval \<Rightarrow> error + pyval list" where
  "iterate s v =
     (case v of
        PList xs \<Rightarrow> Inr xs
      | PDict a \<Rightarrow> Inr (map (\<lambda>(k, x). PStr k) (s a))
      | PStr t \<Rightarrow> Inr (map (\<lambda>c. PStr [c]) t)
      | _ \<Rightarrow> Inl TypeError)"

text \<open>
  \<^verbatim>\<open>properties.values()\<close>: \<^verbatim>\<open>AttributeError\<close> for a value that is not a dictionary.
  The loop goes through the values the dictionary holds when the loop starts. (A
  dictionary of properties is not itself a schema node in a schema read from JSON, so the
  simplifier does not add or remove keys of it during the loop.)
\<close>

definition dict_values :: "store \<Rightarrow> pyval \<Rightarrow> error + pyval list" where
  "dict_values s v =
     (case v of
        PDict a \<Rightarrow> Inr (map snd (s a))
      | _ \<Rightarrow> Inl AttributeError)"

text \<open>
  \<^verbatim>\<open>schema.pop('title', None)\<close> on a value that is not a dictionary: a list has a
  \<^verbatim>\<open>pop\<close> that takes one argument (\<^verbatim>\<open>TypeError\<close>), the other values have none
  (\<^verbatim>\<open>AttributeError\<close>).
\<close>

definition no_pop :: "pyval \<Rightarrow> error" where
  "no_pop v = (case v of PList xs \<Rightarrow> TypeError | _ \<Rightarrow> AttributeError)"

subsection \<open>The schema simplifier\<close>

text \<open>
  The three methods \<^verbatim>\<open>_simplify\<close>, \<^verbatim>\<open>_object\<close> and \<^verbatim>\<open>_array\<close> of
  \<^verbatim>\<open>_GeminiJsonSchema\<close> call each other. Python bounds the depth of the call stack:
  a call for which no frame is left raises \<^verbatim>\<open>RecursionError\<close>. The model has the
  number of frames left as a parameter. \<open>methods_at d defs\<close> are the three methods
  with \<open>d\<close> frames left; their bodies, below, take as \<open>self\<close> the methods with one
  frame less. A method returns the exception it raised, if any, and the store it leaves.
\<close>

type_synonym result = "error option \<times> store"

record methods =
  m_simplify :: "pyval \<Rightarrow> string list \<Rightarrow> store \<Rightarrow> result"
  m_object :: "addr \<Rightarrow> string list \<Rightarrow> store \<Rightarrow> result"
  m_array :: "addr \<Rightarrow> string list \<Rightarrow> store \<Rightarrow> result"

text \<open>\<^verbatim>\<open>for x in xs: f(x)\<close>, stopping at the first exception.\<close>

primrec each :: "(pyval \<Rightarrow> store \<Rightarrow> result) \<Rightarrow> pyval list \<Rightarrow> store \<Rightarrow> result" where
  "each f [] s = (None, s)"
| "each f (x # xs) s =
     (case f x s of
        (Some e, s') \<Rightarrow> (Some e, s')
      | (None, s') \<Rightarrow> each f xs s')"

text \<open>
  \<^verbatim>\<open>
  def _simplify(self, schema, refs_stack):
      schema.pop('title', None)
      schema.pop('default', None)
      if ref := schema.pop('$ref', None):
          key = re.sub(r'^#/\$defs/', '', ref)
          if key in refs_stack:
              raise exceptions.UserError('Recursive `$ref`s in JSON Schema are not supported by Gemini')
          refs_stack += (key,)
          schema_def = self.defs[key]
          self._simplify(schema_def, refs_stack)
          schema.update(schema_def)
          return
      if any_of := schema.get('anyOf'):
          for schema in any_of:
              self._simplify(schema, refs_stack)
      type_ = schema.get('type')
      if type_ == 'object':
          self._object(schema, refs_stack)
      elif type_ == 'array':
          return self._array(schema, refs_stack)
  \<close>
  The loop \<^verbatim>\<open>for schema in any_of\<close> assigns to the variable \<^verbatim>\<open>schema\<close>: after a loop
  that ran, \<^verbatim>\<open>schema\<close> is the last element of \<^verbatim>\<open>any_of\<close>, and the type that is read
  next is the type of that element (\<open>schema'\<close> below). A \<^verbatim>\<open>$ref\<close> that is true and is
  not a string makes \<^verbatim>\<open>re.sub\<close> raise \<^verbatim>\<open>TypeError\<close>. Two branches are there
  for totality only and are never taken by the methods themselves: \<^verbatim>\<open>_simplify\<close>
  returns without an exception on dictionaries only, so \<^verbatim>\<open>schema_def\<close> is a
  dictionary when \<^verbatim>\<open>update\<close> is called, and so is the last element of \<^verbatim>\<open>any_of\<close>
  when its type is read.
\<close>

definition simplify_body :: "methods \<Rightarrow> pyval \<Rightarrow> pyval \<Rightarrow> string list \<Rightarrow> store \<Rightarrow> result" where
  "simplify_body self defs schema refs_stack s =
     (case schema of
        PDict a \<Rightarrow>
          (let s1 = pop a ''title'' s;
               s2 = pop a ''default'' s1;
               ref = dict_get (s2 a) ''$ref'';
               s3 = pop a ''$ref'' s2
           in if truthy s3 ref then
                (case ref of
                   PStr r \<Rightarrow>
                     (let key = defs_key r in
                      if key \<in> set refs_stack
                      then (Some (UserError
                        ''Recursive `$ref`s in JSON Schema are not supported by Gemini''), s3)
                      else
                        (case subscript s3 defs key of
                           Inl e \<Rightarrow> (Some e, s3)
                         | Inr schema_def \<Rightarrow>
                             (case m_simplify self schema_def (refs_stack @ [key]) s3 of
                                (Some e, s4) \<Rightarrow> (Some e, s4)
                              | (None, s4) \<Rightarrow>
                                  (case schema_def of
                                     PDict b \<Rightarrow> (None, s4(a := dict_update (s4 a) (s4 b)))
                                   | _ \<Rightarrow> (Some TypeError, s4)))))
                 | _ \<Rightarrow> (Some TypeError, s3))
              else
                (let any_of = dict_get (s3 a) ''anyOf'' in
                 case (if truthy s3 any_of then
                         (case iterate s3 any_of of
                            Inl e \<Rightarrow> (Some e, s3, schema)
                          | Inr xs \<Rightarrow>
                              (case each (\<lambda>x. m_simplify self x refs_stack) xs s3 of
                                 (Some e, s4) \<Rightarrow> (Some e, s4, schema)
                               | (None, s4) \<Rightarrow> (None, s4, last xs)))
                       else (None, s3, schema)) of
                   (Some e, s4, schema') \<Rightarrow> (Some e, s4)
                 | (None, s4, schema') \<Rightarrow>
                     (case schema' of
                        PDict a' \<Rightarrow>
                          (let ty = dict_get (s4 a') ''type'' in
                           if ty = PStr ''object'' then m_object self a' refs_stack s4
                           else if ty = PStr ''array'' then m_array self a' refs_stack s4
                           else (None, s4))
                      | _ \<Rightarrow> (Some AttributeError, s4))))
      | _ \<Rightarrow> (Some (no_pop schema), s))"

text \<open>
  \<^verbatim>\<open>
  def _object(self, schema, refs_stack):
      ad_props = schema.pop('additionalProperties', None)
      if ad_props:
          raise exceptions.UserError('Additional properties in JSON Schema are not supported by Gemini')
      if properties := schema.get('properties'):
          for value in properties.values():
              self._simplify(value, refs_stack)
  \<close>
\<close>

definition object_body :: "methods \<Rightarrow> addr \<Rightarrow> string list \<Rightarrow> store \<Rightarrow> result" where
  "object_body self a refs_stack s =
     (let ad_props = dict_get (s a) ''additionalProperties'';
          s1 = pop a ''additionalProperties'' s
      in if truthy s1 ad_props
         then (Some (UserError
           ''Additional properties in JSON Schema are not supported by Gemini''), s1)
         else
           (let properties = dict_get (s1 a) ''properties'' in
            if truthy s1 properties then
              (case dict_values s1 properties of
                 Inl e \<Rightarrow> (Some e, s1)
               | Inr vs \<Rightarrow> each (\<lambda>v. m_simplify self v refs_stack) vs s1)
            else (None, s1)))"

text \<open>
  \<^verbatim>\<open>
  def _array(self, schema, refs_stack):
      if prefix_items := schema.get('prefixItems'):
          for prefix_item in prefix_items:
              self._simplify(prefix_item, refs_stack)
      if items_schema := schema.get('items'):
          self._simplify(items_schema, refs_stack)
  \<close>
\<close>

definition array_body :: "methods \<Rightarrow> addr \<Rightarrow> string list \<Rightarrow> store \<Rightarrow> result" where
  "array_body self a refs_stack s =
     (let prefix_items = dict_get (s a) ''prefixItems'' in
      case (if truthy s prefix_items then
              (case iterate s prefix_items of
                 Inl e \<Rightarrow> (Some e, s)
               | Inr xs \<Rightarrow> each (\<lambda>x. m_simplify self x refs_stack) xs s)
            else (None, s)) of
        (Some e, s1) \<Rightarrow> (Some e, s1)
      | (None, s1) \<Rightarrow>
          (let items_schema = dict_get (s1 a) ''items'' in
           if truthy s1 items_schema then m_simplify self items_schema refs_stack s1
           else (None, s1)))"

primrec methods_at :: "nat \<Rightarrow> pyval \<Rightarrow> methods" where
  "methods_at 0 defs =
     \<lparr> m_simplify = (\<lambda>schema refs_stack s. (Some RecursionError, s)),
       m_object = (\<lambda>a refs_stack s. (Some RecursionError, s)),
       m_array = (\<lambda>a refs_stack s. (Some RecursionError, s)) \<rparr>"
| "methods_at (Suc d) defs =
     (let self = methods_at d defs in
      \<lparr> m_simplify = simplify_body self defs,
        m_object = object_body self,
        m_array = array_body self \<rparr>)"

declare methods_at.simps [simp del]

definition simplify_node :: "nat \<Rightarrow> pyval \<Rightarrow> pyval \<Rightarrow> string list \<Rightarrow> store \<Rightarrow> result" where
  "simplify_node d defs = m_simplify (methods_at d defs)"

subsection \<open>The deep copy and the constructor\<close>

text \<open>
  A heap is a store with the first address that is not in use. \<^verbatim>\<open>copy.deepcopy\<close>
  builds a new dictionary for every dictionary it reaches, and remembers in its memo
  which copy belongs to which original, so that a dictionary reached twice is copied
  once. It belongs to the standard library and is recursive as well: \<open>deepcopy_at d\<close>
  is the copy with \<open>d\<close> nested calls left, and the copy of a dictionary copies its
  values, key by key, into the new dictionary.
\<close>

type_synonym heap = "store \<times> addr"

type_synonym copy_state = "store \<times> addr \<times> (addr \<times> addr) list"

primrec copy_items ::
  "(pyval \<Rightarrow> copy_state \<Rightarrow> error option \<times> pyval \<times> copy_state) \<Rightarrow> addr \<Rightarrow> pydict \<Rightarrow> copy_state
     \<Rightarrow> error option \<times> copy_state" where
  "copy_items f y [] st = (None, st)"
| "copy_items f y (kv # kvs) st =
     (case f (snd kv) st of
        (Some e, v', st') \<Rightarrow> (Some e, st')
      | (None, v', (s', lim', memo')) \<Rightarrow>
          copy_items f y kvs (s'(y := AList.update (fst kv) v' (s' y)), lim', memo'))"

primrec copy_list ::
  "(pyval \<Rightarrow> copy_state \<Rightarrow> error option \<times> pyval \<times> copy_state) \<Rightarrow> pyval list \<Rightarrow> copy_state
     \<Rightarrow> error option \<times> pyval list \<times> copy_state" where
  "copy_list f [] st = (None, [], st)"
| "copy_list f (x # xs) st =
     (case f x st of
        (Some e, x', st') \<Rightarrow> (Some e, [], st')
      | (None, x', st') \<Rightarrow>
          (case copy_list f xs st' of
             (Some e, xs', st'') \<Rightarrow> (Some e, [], st'')
           | (None, xs', st'') \<Rightarrow> (None, x' # xs', st'')))"

definition deepcopy_body ::
  "(pyval \<Rightarrow> copy_state \<Rightarrow> error option \<times> pyval \<times> copy_state) \<Rightarrow> pyval \<Rightarrow> copy_state
     \<Rightarrow> error option \<times> pyval \<times> copy_state" where
  "deepcopy_body deepcopy x st =
     (case st of (s, lim, memo) \<Rightarrow>
        (case x of
           PDict a \<Rightarrow>
             (case map_of memo a of
                Some y \<Rightarrow> (None, PDict y, st)
              | None \<Rightarrow>
                  (case copy_items deepcopy lim (s a) (s(lim := []), Suc lim, (a, lim) # memo) of
                     (Some e, st') \<Rightarrow> (Some e, PNone, st')
                   | (None, st') \<Rightarrow> (None, PDict lim, st')))
         | PList xs \<Rightarrow>
             (case copy_list deepcopy xs st of
                (Some e, ys, st') \<Rightarrow> (Some e, PNone, st')
              | (None, ys, st') \<Rightarrow> (None, PList ys, st'))
         | _ \<Rightarrow> (None, x, st)))"

primrec deepcopy_at ::
  "nat \<Rightarrow> pyval \<Rightarrow> copy_state \<Rightarrow> error option \<times> pyval \<times> copy_state" where
  "deepcopy_at 0 = (\<lambda>x st. (Some RecursionError, PNone, st))"
| "deepcopy_at (Suc d) = deepcopy_body (deepcopy_at d)"

text \<open>
  \<^verbatim>\<open>
  def __init__(self, schema):
      self.schema = deepcopy(schema)
      self.defs = self.schema.pop('$defs', {})
  def simplify(self):
      self._simplify(self.schema, refs_stack=())
      return self.schema
  \<close>
  The default \<^verbatim>\<open>{}\<close> is a new empty dictionary.
\<close>

record GeminiJsonSchema =
  js_schema :: pyval
  js_defs :: pyval

definition GeminiJsonSchema_init ::
  "nat \<Rightarrow> pyval \<Rightarrow> heap \<Rightarrow> (error + GeminiJsonSchema) \<times> heap" where
  "GeminiJsonSchema_init d schema_arg h =
     (case h of (s, lim) \<Rightarrow>
        (case deepcopy_at d schema_arg (s, lim, []) of
           (Some e, c, (s1, lim1, memo)) \<Rightarrow> (Inl e, (s1, lim1))
         | (None, c, (s1, lim1, memo)) \<Rightarrow>
             (case c of
                PDict a \<Rightarrow>
                  (let dflt = lim1; s2 = s1(dflt := []); lim2 = Suc lim1 in
                   case map_of (s2 a) ''$defs'' of
                     None \<Rightarrow> (Inr \<lparr>js_schema = c, js_defs = PDict dflt\<rparr>, (s2, lim2))
                   | Some v \<Rightarrow>
                       (Inr \<lparr>js_schema = c, js_defs = v\<rparr>, (pop a ''$defs'' s2, lim2)))
              | _ \<Rightarrow> (Inl (no_pop c), (s1, lim1)))))"

definition simplify ::
  "nat \<Rightarrow> GeminiJsonSchema \<Rightarrow> heap \<Rightarrow> (error + pyval) \<times> heap" where
  "simplify d self h =
     (case h of (s, lim) \<Rightarrow>
        (case simplify_node d (js_defs self) (js_schema self) [] s of
           (Some e, s') \<Rightarrow> (Inl e, (s', lim))
         | (None, s') \<Rightarrow> (Inr (js_schema self), (s', lim))))"

text \<open>
  \<^verbatim>\<open>_GeminiJsonSchema(tool.json_schema).simplify()\<close>, as
  \<^verbatim>\<open>_function_from_abstract_tool\<close> calls it: \<open>dc\<close> nested calls are left for the copy and
  \<open>d\<close> for the simplifier.
\<close>

definition simplified_schema ::
  "nat \<Rightarrow> nat \<Rightarrow> pyval \<Rightarrow> heap \<Rightarrow> (error + pyval) \<times> heap" where
  "simplified_schema dc d json_schema h =
     (case GeminiJsonSchema_init dc json_schema h of
        (Inl e, h1) \<Rightarrow> (Inl e, h1)
      | (Inr self, h1) \<Rightarrow> simplify d self h1)"

subsection \<open>Notions used in the statements about the simplifier\<close>

text \<open>
  The addresses a value and a dictionary refer to; a set \<open>F\<close> of addresses is closed in
  a store when the dictionaries at the addresses of \<open>F\<close> refer to addresses of \<open>F\<close>
  only. A function on stores preserves \<open>F\<close> when it keeps \<open>F\<close> closed and leaves every
  dictionary outside \<open>F\<close> as it is.
\<close>

fun vaddrs :: "pyval \<Rightarrow> addr set" where
  "vaddrs (PDict a) = {a}"
| "vaddrs (PList xs) = (\<Union>x\<in>set xs. vaddrs x)"
| "vaddrs _ = {}"

definition daddrs :: "pydict \<Rightarrow> addr set" where
  "daddrs d = (\<Union>kv\<in>set d. vaddrs (snd kv))"

definition closed :: "addr set \<Rightarrow> store \<Rightarrow> bool" where
  "closed F s = (\<forall>a\<in>F. daddrs (s a) \<subseteq> F)"

definition preserves :: "addr set \<Rightarrow> (store \<Rightarrow> result) \<Rightarrow> bool" where
  "preserves F f = (\<forall>s. closed F s \<longrightarrow>
     closed F (snd (f s)) \<and> (\<forall>a. a \<notin> F \<longrightarrow> snd (f s) a = s a))"

definition methods_frame :: "addr set \<Rightarrow> methods \<Rightarrow> bool" where
  "methods_frame F self =
     ((\<forall>schema refs_stack. vaddrs schema \<subseteq> F \<longrightarrow> preserves F (m_simplify self schema refs_stack))
      \<and> (\<forall>a refs_stack. a \<in> F \<longrightarrow> preserves F (m_object self a refs_stack))
      \<and> (\<forall>a refs_stack. a \<in> F \<longrightarrow> preserves F (m_array self a refs_stack)))"

text \<open>
  The calls of a run. A call is one of the three methods with its arguments; a
  configuration is a call with the number of frames left and the store it starts in.
  \<open>subcall defs c c'\<close> says that the body of the call \<open>c\<close> makes the call \<open>c'\<close>: one rule
  for each place where the three methods call a method. An element of a loop is called
  in the store that the elements before it have left, when they all returned without an
  exception. \<open>popped a s\<close> is the store after the three \<^verbatim>\<open>pop\<close> of \<^verbatim>\<open>_simplify\<close> on the
  node at \<open>a\<close>, and \<open>ref_of a s\<close> is what the third one returns. \<open>processes defs c c'\<close>
  says that the run of \<open>c\<close> reaches \<open>c'\<close>, through any number of calls.
\<close>

datatype call =
    Simplify pyval "string list"
  | Object addr "string list"
  | Array addr "string list"

type_synonym config = "nat \<times> call \<times> store"

fun run_call :: "pyval \<Rightarrow> config \<Rightarrow> result" where
  "run_call defs (d, Simplify schema refs_stack, s) = m_simplify (methods_at d defs) schema refs_stack s"
| "run_call defs (d, Object a refs_stack, s) = m_object (methods_at d defs) a refs_stack s"
| "run_call defs (d, Array a refs_stack, s) = m_array (methods_at d defs) a refs_stack s"

definition popped :: "addr \<Rightarrow> store \<Rightarrow> store" where
  "popped a s = pop a ''$ref'' (pop a ''default'' (pop a ''title'' s))"

definition ref_of :: "addr \<Rightarrow> store \<Rightarrow> pyval" where
  "ref_of a s = dict_get (pop a ''default'' (pop a ''title'' s) a) ''$ref''"

inductive subcall :: "pyval \<Rightarrow> config \<Rightarrow> config \<Rightarrow> bool" for defs :: pyval where
  ref:
    "\<lbrakk>truthy (popped a s) (ref_of a s); ref_of a s = PStr r; defs_key r \<notin> set refs_stack;
      subscript (popped a s) defs (defs_key r) = Inr schema_def\<rbrakk>
     \<Longrightarrow> subcall defs (Suc d, Simplify (PDict a) refs_stack, s)
           (d, Simplify schema_def (refs_stack @ [defs_key r]), popped a s)"
| any_of:
    "\<lbrakk>\<not> truthy (popped a s) (ref_of a s);
      truthy (popped a s) (dict_get (popped a s a) ''anyOf'');
      iterate (popped a s) (dict_get (popped a s a) ''anyOf'') = Inr (pre @ x # post);
      each (\<lambda>x. m_simplify (methods_at d defs) x refs_stack) pre (popped a s) = (None, s')\<rbrakk>
     \<Longrightarrow> subcall defs (Suc d, Simplify (PDict a) refs_stack, s) (d, Simplify x refs_stack, s')"
| object_plain:
    "\<lbrakk>\<not> truthy (popped a s) (ref_of a s);
      \<not> truthy (popped a s) (dict_get (popped a s a) ''anyOf'');
      dict_get (popped a s a) ''type'' = PStr ''object''\<rbrakk>
     \<Longrightarrow> subcall defs (Suc d, Simplify (PDict a) refs_stack, s) (d, Object a refs_stack, popped a s)"
| object_last:
    "\<lbrakk>\<not> truthy (popped a s) (ref_of a s);
      truthy (popped a s) (dict_get (popped a s a) ''anyOf'');
      iterate (popped a s) (dict_get (popped a s a) ''anyOf'') = Inr xs;
      each (\<lambda>x. m_simplify (methods_at d defs) x refs_stack) xs (popped a s) = (None, s4);
      last xs = PDict a'; dict_get (s4 a') ''type'' = PStr ''object''\<rbrakk>
     \<Longrightarrow> subcall defs (Suc d, Simplify (PDict a) refs_stack, s) (d, Object a' refs_stack, s4)"
| array_plain:
    "\<lbrakk>\<not> truthy (popped a s) (ref_of a s);
      \<not> truthy (popped a s) (dict_get (popped a s a) ''anyOf'');
      dict_get (popped a s a) ''type'' = PStr ''array''\<rbrakk>
     \<Longrightarrow> subcall defs (Suc d, Simplify (PDict a) refs_stack, s) (d, Array a refs_stack, popped a s)"
| array_last:
    "\<lbrakk>\<not> truthy (popped a s) (ref_of a s);
      truthy (popped a s) (dict_get (popped a s a) ''anyOf'');
      iterate (popped a s) (dict_get (popped a s a) ''anyOf'') = Inr xs;
      each (\<lambda>x. m_simplify (methods_at d defs) x refs_stack) xs (popped a s) = (None, s4);
      last xs = PDict a'; dict_get (s4 a') ''type'' = PStr ''array''\<rbrakk>
     \<Longrightarrow> subcall defs (Suc d, Simplify (PDict a) refs_stack, s) (d, Array a' refs_stack, s4)"
| property:
    "\<lbrakk>s1 = pop a ''additionalProperties'' s;
      \<not> truthy s1 (dict_get (s a) ''additionalProperties'');
      truthy s1 (dict_get (s1 a) ''properties'');
      dict_values s1 (dict_get (s1 a) ''properties'') = Inr (pre @ v # post);
      each (\<lambda>v. m_simplify (methods_at d defs) v refs_stack) pre s1 = (None, s')\<rbrakk>
     \<Longrightarrow> subcall defs (Suc d, Object a refs_stack, s) (d, Simplify v refs_stack, s')"
| prefix_item:
    "\<lbrakk>truthy s (dict_get (s a) ''prefixItems'');
      iterate s (dict_get (s a) ''prefixItems'') = Inr (pre @ x # post);
      each (\<lambda>x. m_simplify (methods_at d defs) x refs_stack) pre s = (None, s')\<rbrakk>
     \<Longrightarrow> subcall defs (Suc d, Array a refs_stack, s) (d, Simplify x refs_stack, s')"
| items_plain:
    "\<lbrakk>\<not> truthy s (dict_get (s a) ''prefixItems''); truthy s (dict_get (s a) ''items'')\<rbrakk>
     \<Longrightarrow> subcall defs (Suc d, Array a refs_stack, s)
           (d, Simplify (dict_get (s a) ''items'') refs_stack, s)"
| items_after:
    "\<lbrakk>truthy s (dict_get (s a) ''prefixItems'');
      iterate s (dict_get (s a) ''prefixItems'') = Inr xs;
      each (\<lambda>x. m_simplify (methods_at d defs) x refs_stack) xs s = (None, s1);
      truthy s1 (dict_get (s1 a) ''items'')\<rbrakk>
     \<Longrightarrow> subcall defs (Suc d, Array a refs_stack, s)
           (d, Simplify (dict_get (s1 a) ''items'') refs_stack, s1)"

definition processes :: "pyval \<Rightarrow> config \<Rightarrow> config \<Rightarrow> bool" where
  "processes defs = (subcall defs)\<^sup>*\<^sup>*"

text \<open>In a heap, the addresses that are not in use hold nothing.\<close>

definition heap_ok :: "heap \<Rightarrow> bool" where
  "heap_ok h = (case h of (s, lim) \<Rightarrow> \<forall>a\<ge>lim. s a = [])"

text \<open>
  The invariant of the deep copy that starts in the store \<open>s0\<close> with the addresses from
  \<open>lim0\<close> on free: the copies lie between \<open>lim0\<close> and the current limit and refer to
  copies only, and the dictionaries below \<open>lim0\<close> are those of \<open>s0\<close>.
\<close>

definition copy_inv :: "addr \<Rightarrow> store \<Rightarrow> copy_state \<Rightarrow> bool" where
  "copy_inv lim0 s0 st =
     (case st of (s, lim, memo) \<Rightarrow>
        lim0 \<le> lim \<and> (\<forall>a\<ge>lim. s a = [])
        \<and> (\<forall>a\<ge>lim0. daddrs (s a) \<subseteq> {lim0..<lim})
        \<and> snd ` set memo \<subseteq> {lim0..<lim}
        \<and> (\<forall>a<lim0. s a = s0 a))"

definition copies ::
  "addr \<Rightarrow> store \<Rightarrow> (pyval \<Rightarrow> copy_state \<Rightarrow> error option \<times> pyval \<times> copy_state) \<Rightarrow> bool" where
  "copies lim0 s0 f =
     (\<forall>x st e v st'. copy_inv lim0 s0 st \<longrightarrow> f x st = (e, v, st') \<longrightarrow>
        copy_inv lim0 s0 st' \<and> fst (snd st) \<le> fst (snd st')
        \<and> vaddrs v \<subseteq> {lim0..<fst (snd st')})"

subsection \<open>Example schemas\<close>

text \<open>
  \<open>example_store\<close> holds, at address 0, the schema
  \<^verbatim>\<open>{"title": "T", "type": "object", "additionalProperties": false,
    "properties": {"x": {"type": "string", "title": "X"}}}\<close>,
  and \<open>nested_store\<close> the schema
  \<^verbatim>\<open>{"type": "object",
    "properties": {"name": {"type": "string", "title": "Name"},
                   "tags": {"type": "object", "additionalProperties": true}}}\<close>,
  with an empty dictionary of definitions at address 4.
\<close>

definition example_store :: store where
  "example_store = (\<lambda>_. [])
     (0 := [(''title'', PStr ''T''), (''type'', PStr ''object''),
            (''additionalProperties'', PBool False), (''properties'', PDict 1)],
      1 := [(''x'', PDict 2)],
      2 := [(''type'', PStr ''string''), (''title'', PStr ''X'')])"

definition nested_store :: store where
  "nested_store = (\<lambda>_. [])
     (0 := [(''type'', PStr ''object''), (''properties'', PDict 1)],
      1 := [(''name'', PDict 2), (''tags'', PDict 3)],
      2 := [(''type'', PStr ''string''), (''title'', PStr ''Name'')],
      3 := [(''type'', PStr ''object''), (''additionalProperties'', PBool True)])"

text \<open>
  \<open>recursive_store\<close> holds, at address 0, a schema whose definition \<open>A\<close> refers to
  itself, in an \<^verbatim>\<open>anyOf\<close> that stands beside a \<^verbatim>\<open>$ref\<close>:
  \<^verbatim>\<open>{"type": "object",
    "properties": {"q": {"anyOf": [{"$ref": "#/$defs/A"}]}},
    "$defs": {"A": {"type": "object",
                    "properties": {"p": {"$ref": "#/$defs/B",
                                         "anyOf": [{"$ref": "#/$defs/A"}]}}},
              "B": {}}}\<close>
  \<open>recursive_copy\<close> is the store after the constructor has copied it.
\<close>

definition recursive_store :: store where
  "recursive_store = (\<lambda>_. [])
     (0 := [(''type'', PStr ''object''), (''properties'', PDict 1), (''$defs'', PDict 4)],
      1 := [(''q'', PDict 2)],
      2 := [(''anyOf'', PList [PDict 3])],
      3 := [(''$ref'', PStr ''#/$defs/A'')],
      4 := [(''A'', PDict 5), (''B'', PDict 9)],
      5 := [(''type'', PStr ''object''), (''properties'', PDict 6)],
      6 := [(''p'', PDict 7)],
      7 := [(''$ref'', PStr ''#/$defs/B''), (''anyOf'', PList [PDict 8])],
      8 := [(''$ref'', PStr ''#/$defs/A'')])"

definition recursive_copy :: store where
  "recursive_copy = fst (snd (GeminiJsonSchema_init 20 (PDict 0) (recursive_store, 10)))"

section \<open>Properties\<close>

subsection \<open>Helper lemmas\<close>

lemma map_result_function_call_of:
  "list_all is_function_call ps \<Longrightarrow>
   map_result function_call_of ps =
     Inr (map (\<lambda>p. case p of GeminiFunctionCallPart n a \<Rightarrow> from_object n a) ps)"
proof (induction ps)
  case Nil
  show ?case by simp
next
  case (Cons p ps)
  then show ?case by (cases p) simp_all
qed

lemma map_result_text_of:
  "list_all is_text ps \<Longrightarrow>
   map_result text_of ps = Inr (map (\<lambda>p. case p of GeminiTextPart t \<Rightarrow> t) ps)"
proof (induction ps)
  case Nil
  show ?case by simp
next
  case (Cons p ps)
  then show ?case by (cases p) simp_all
qed

lemma not_both_kinds:
  "ps \<noteq> [] \<Longrightarrow> list_all is_text ps \<Longrightarrow> \<not> list_all is_function_call ps"
  by (cases ps) auto

lemma all_function_call_parts_iff:
  "all_function_call_parts ps \<longleftrightarrow> (\<exists>calls. ps = map (\<lambda>(n, a). GeminiFunctionCallPart n a) calls)"
proof
  assume "all_function_call_parts ps"
  then have "list_all is_function_call ps"
    by (simp add: all_function_call_parts_def)
  then have "ps = map (\<lambda>(n, a). GeminiFunctionCallPart n a)
                    (map (\<lambda>p. case p of GeminiFunctionCallPart n a \<Rightarrow> (n, a)) ps)"
  proof (induction ps)
    case Nil
    show ?case by simp
  next
    case (Cons p ps)
    then show ?case by (cases p) simp_all
  qed
  then show "\<exists>calls. ps = map (\<lambda>(n, a). GeminiFunctionCallPart n a) calls" ..
next
  assume "\<exists>calls. ps = map (\<lambda>(n, a). GeminiFunctionCallPart n a) calls"
  then show "all_function_call_parts ps"
    by (auto simp: all_function_call_parts_def list_all_iff)
qed

lemma all_text_parts_iff:
  "all_text_parts ps \<longleftrightarrow> (\<exists>ts. ps = map GeminiTextPart ts)"
proof
  assume "all_text_parts ps"
  then have "list_all is_text ps"
    by (simp add: all_text_parts_def)
  then have "ps = map GeminiTextPart (map (\<lambda>p. case p of GeminiTextPart t \<Rightarrow> t) ps)"
  proof (induction ps)
    case Nil
    show ?case by simp
  next
    case (Cons p ps)
    then show ?case by (cases p) simp_all
  qed
  then show "\<exists>ts. ps = map GeminiTextPart ts" ..
next
  assume "\<exists>ts. ps = map GeminiTextPart ts"
  then show "all_text_parts ps"
    by (auto simp: all_text_parts_def list_all_iff)
qed

lemma map_result_calls:
  "map_result function_call_of (map (\<lambda>(n, a). GeminiFunctionCallPart n a) calls) =
     Inr (map (\<lambda>(n, a). from_object n a) calls)"
  by (induction calls) (auto split: prod.splits)

lemma map_result_texts:
  "map_result text_of (map GeminiTextPart ts) = Inr ts"
  by (induction ts) auto

lemma extract_function_calls:
  "candidates r = [c] \<Longrightarrow> all_function_call_parts (parts (content c)) \<Longrightarrow>
   extract_response_parts r = Inr (Left (parts (content c)))"
  by (simp add: extract_response_parts_def)

lemma extract_texts:
  "candidates r = [c] \<Longrightarrow> \<not> all_function_call_parts (parts (content c)) \<Longrightarrow>
   all_text_parts (parts (content c)) \<Longrightarrow>
   extract_response_parts r = Inr (Right (parts (content c)))"
  by (simp add: extract_response_parts_def)

lemma extract_unsupported:
  "candidates r = [c] \<Longrightarrow> \<not> all_function_call_parts (parts (content c)) \<Longrightarrow>
   \<not> all_text_parts (parts (content c)) \<Longrightarrow>
   extract_response_parts r = Inl (UnexpectedModelBehaviour
     ''Unsupported response from Gemini, expected all parts to be function calls or text'')"
  by (simp add: extract_response_parts_def)

subsection \<open>Non-streamed responses\<close>

text \<open>
  Claim C1, as the code has it. A response that does not have exactly one candidate fails
  with \<open>UnexpectedModelBehaviour\<close>. With exactly one candidate: if every part is a
  function-call part the result is the \<open>LLMToolCalls\<close> of those calls, in order; if every
  part is a text part and there is at least one part, the result is the \<open>LLMResponse\<close> of
  the concatenated texts; if some part is not a function call and some part is not a text
  (the parts mix kinds), the result is \<open>UnexpectedModelBehaviour\<close>. The function-call
  test comes first in the source, and the empty list of parts passes it.
\<close>

theorem process_response_cases:
  "(length (candidates r) \<noteq> 1 \<longrightarrow>
      process_response now r =
        Inl (UnexpectedModelBehaviour ''Expected exactly one candidate in Gemini response''))
   \<and> (candidates r = [c] \<and> parts (content c) = map (\<lambda>(n, a). GeminiFunctionCallPart n a) calls \<longrightarrow>
      process_response now r = Inr (LLMToolCalls (map (\<lambda>(n, a). from_object n a) calls) now))
   \<and> (candidates r = [c] \<and> parts (content c) = map GeminiTextPart ts \<and> ts \<noteq> [] \<longrightarrow>
      process_response now r = Inr (LLMResponse (concat ts) now))
   \<and> (candidates r = [c] \<and> \<not> all_function_call_parts (parts (content c))
        \<and> \<not> all_text_parts (parts (content c)) \<longrightarrow>
      process_response now r = Inl (UnexpectedModelBehaviour
        ''Unsupported response from Gemini, expected all parts to be function calls or text''))"
proof (intro conjI impI)
  assume "length (candidates r) \<noteq> 1"
  then show "process_response now r =
    Inl (UnexpectedModelBehaviour ''Expected exactly one candidate in Gemini response'')"
    by (simp add: process_response_def extract_response_parts_def)
next
  assume h: "candidates r = [c] \<and>
    parts (content c) = map (\<lambda>(n, a). GeminiFunctionCallPart n a) calls"
  then have "all_function_call_parts (parts (content c))"
    using all_function_call_parts_iff by blast
  with h have "extract_response_parts r = Inr (Left (parts (content c)))"
    by (simp add: extract_function_calls)
  with h show "process_response now r =
    Inr (LLMToolCalls (map (\<lambda>(n, a). from_object n a) calls) now)"
    by (simp add: process_response_def tool_call_from_parts_def map_result_calls)
next
  assume h: "candidates r = [c] \<and> parts (content c) = map GeminiTextPart ts \<and> ts \<noteq> []"
  then have t: "all_text_parts (parts (content c))"
    using all_text_parts_iff by blast
  from h have "parts (content c) \<noteq> []" by simp
  with t have "\<not> all_function_call_parts (parts (content c))"
    using not_both_kinds by (simp add: all_text_parts_def all_function_call_parts_def)
  with h t have "extract_response_parts r = Inr (Right (parts (content c)))"
    by (simp add: extract_texts)
  with h show "process_response now r = Inr (LLMResponse (concat ts) now)"
    by (simp add: process_response_def map_result_texts)
next
  assume "candidates r = [c] \<and> \<not> all_function_call_parts (parts (content c))
    \<and> \<not> all_text_parts (parts (content c))"
  then show "process_response now r = Inl (UnexpectedModelBehaviour
    ''Unsupported response from Gemini, expected all parts to be function calls or text'')"
    by (simp add: process_response_def extract_unsupported)
qed

theorem process_response_cases_witness:
  "length (candidates \<lparr>candidates = [], usage_metadata = \<lparr>prompt_token_count = None,
       candidates_token_count = None, total_token_count = None,
       cached_content_token_count = None\<rparr>\<rparr>) \<noteq> 1
   \<and> process_response 7 \<lparr>candidates = [], usage_metadata = \<lparr>prompt_token_count = None,
       candidates_token_count = None, total_token_count = None,
       cached_content_token_count = None\<rparr>\<rparr> =
     Inl (UnexpectedModelBehaviour ''Expected exactly one candidate in Gemini response'')
   \<and> process_response 7 \<lparr>candidates = [\<lparr>content = \<lparr>role = Model,
         parts = [GeminiFunctionCallPart ''get_weather'' [(''lat'', JNum 51)]]\<rparr>,
         finish_reason = Some STOP\<rparr>],
       usage_metadata = \<lparr>prompt_token_count = None,
       candidates_token_count = None, total_token_count = None,
       cached_content_token_count = None\<rparr>\<rparr> =
     Inr (LLMToolCalls [from_object ''get_weather'' [(''lat'', JNum 51)]] 7)
   \<and> process_response 7 \<lparr>candidates = [\<lparr>content = \<lparr>role = Model,
         parts = [GeminiTextPart ''Hello '', GeminiTextPart ''world'']\<rparr>,
         finish_reason = None\<rparr>],
       usage_metadata = \<lparr>prompt_token_count = None,
       candidates_token_count = None, total_token_count = None,
       cached_content_token_count = None\<rparr>\<rparr> =
     Inr (LLMResponse ''Hello world'' 7)
   \<and> process_response 7 \<lparr>candidates = [\<lparr>content = \<lparr>role = Model,
         parts = [GeminiTextPart ''Hello'', GeminiFunctionCallPart ''f'' []]\<rparr>,
         finish_reason = None\<rparr>],
       usage_metadata = \<lparr>prompt_token_count = None,
       candidates_token_count = None, total_token_count = None,
       cached_content_token_count = None\<rparr>\<rparr> =
     Inl (UnexpectedModelBehaviour
        ''Unsupported response from Gemini, expected all parts to be function calls or text'')"
  using
    process_response_cases [of "\<lparr>candidates = [], usage_metadata = \<lparr>prompt_token_count = None,
       candidates_token_count = None, total_token_count = None,
       cached_content_token_count = None\<rparr>\<rparr>" 7]
    process_response_cases [of "\<lparr>candidates = [\<lparr>content = \<lparr>role = Model,
         parts = [GeminiFunctionCallPart ''get_weather'' [(''lat'', JNum 51)]]\<rparr>,
         finish_reason = Some STOP\<rparr>],
       usage_metadata = \<lparr>prompt_token_count = None,
       candidates_token_count = None, total_token_count = None,
       cached_content_token_count = None\<rparr>\<rparr>" 7
       "\<lparr>content = \<lparr>role = Model,
         parts = [GeminiFunctionCallPart ''get_weather'' [(''lat'', JNum 51)]]\<rparr>,
         finish_reason = Some STOP\<rparr>" "[(''get_weather'', [(''lat'', JNum 51)])]"]
    process_response_cases [of "\<lparr>candidates = [\<lparr>content = \<lparr>role = Model,
         parts = [GeminiTextPart ''Hello '', GeminiTextPart ''world'']\<rparr>,
         finish_reason = None\<rparr>],
       usage_metadata = \<lparr>prompt_token_count = None,
       candidates_token_count = None, total_token_count = None,
       cached_content_token_count = None\<rparr>\<rparr>" 7
       "\<lparr>content = \<lparr>role = Model,
         parts = [GeminiTextPart ''Hello '', GeminiTextPart ''world'']\<rparr>,
         finish_reason = None\<rparr>" _ "[''Hello '', ''world'']"]
    process_response_cases [of "\<lparr>candidates = [\<lparr>content = \<lparr>role = Model,
         parts = [GeminiTextPart ''Hello'', GeminiFunctionCallPart ''f'' []]\<rparr>,
         finish_reason = None\<rparr>],
       usage_metadata = \<lparr>prompt_token_count = None,
       candidates_token_count = None, total_token_count = None,
       cached_content_token_count = None\<rparr>\<rparr>" 7
       "\<lparr>content = \<lparr>role = Model,
         parts = [GeminiTextPart ''Hello'', GeminiFunctionCallPart ''f'' []]\<rparr>,
         finish_reason = None\<rparr>"]
  by (simp add: all_function_call_parts_def all_text_parts_def)

text \<open>
  The claim as written fails where the list of parts is empty: every part is then a text
  part, and the result is an \<open>LLMToolCalls\<close>, not an \<open>LLMResponse\<close>.
\<close>

theorem process_response_all_text_counterexample:
  "all_text_parts (parts (content \<lparr>content = \<lparr>role = Model, parts = []\<rparr>,
       finish_reason = Some STOP\<rparr>))
   \<and> process_response 7 \<lparr>candidates = [\<lparr>content = \<lparr>role = Model, parts = []\<rparr>,
         finish_reason = Some STOP\<rparr>],
       usage_metadata = \<lparr>prompt_token_count = None,
       candidates_token_count = None, total_token_count = None,
       cached_content_token_count = None\<rparr>\<rparr> \<noteq> Inr (LLMResponse (concat []) 7)"
  by (simp add: all_text_parts_def all_function_call_parts_def process_response_def
      extract_response_parts_def tool_call_from_parts_def)

text \<open>
  Claim C10. A response with exactly one candidate whose list of parts is empty makes
  \<^verbatim>\<open>request\<close> return an \<open>LLMToolCalls\<close> with no calls (and the cost of the response):
  no error, and no \<open>LLMResponse\<close>.
\<close>

theorem request_empty_parts:
  "request_result now \<lparr>candidates = [\<lparr>content = \<lparr>role = rl, parts = []\<rparr>,
       finish_reason = fr\<rparr>], usage_metadata = um\<rparr> =
     Inr (LLMToolCalls [] now, metadata_as_cost um)"
  by (simp add: request_result_def process_response_def extract_response_parts_def
      all_function_call_parts_def tool_call_from_parts_def)

subsection \<open>Cost extraction\<close>

text \<open>
  Claim C6, as the code has it. The three counters are the three token counts of the
  metadata, 0 for one that is absent. The details map
  \<open>cached_content_token_count\<close> to the cached count when that count is present and is
  not 0, and are empty otherwise.
\<close>

theorem metadata_as_cost_fields:
  "metadata_as_cost metadata =
     \<lparr> request_tokens = Some (case prompt_token_count metadata of None \<Rightarrow> 0 | Some n \<Rightarrow> n),
       response_tokens = Some (case candidates_token_count metadata of None \<Rightarrow> 0 | Some n \<Rightarrow> n),
       total_tokens = Some (case total_token_count metadata of None \<Rightarrow> 0 | Some n \<Rightarrow> n),
       details = (case cached_content_token_count metadata of
                    None \<Rightarrow> []
                  | Some n \<Rightarrow> if n = 0 then [] else [(''cached_content_token_count'', n)]) \<rparr>"
  by (simp add: metadata_as_cost_def get_default_def truthy_int_def split: option.splits)

text \<open>
  The claim as written fails for a cached count that is present with the value 0: the
  details are empty.
\<close>

theorem metadata_as_cost_zero_counterexample:
  "cached_content_token_count \<lparr>prompt_token_count = Some 10, candidates_token_count = Some 5,
       total_token_count = Some 15, cached_content_token_count = Some 0\<rparr> = Some 0
   \<and> details (metadata_as_cost \<lparr>prompt_token_count = Some 10, candidates_token_count = Some 5,
       total_token_count = Some 15, cached_content_token_count = Some 0\<rparr>) = []
   \<and> details (metadata_as_cost \<lparr>prompt_token_count = Some 10, candidates_token_count = Some 5,
       total_token_count = Some 15, cached_content_token_count = Some 0\<rparr>)
       \<noteq> [(''cached_content_token_count'', 0)]"
  by (simp add: metadata_as_cost_def truthy_int_def)

subsection \<open>Construction of the model\<close>

text \<open>
  Claim C7, as the code has it. Without an explicit key, and with the environment
  variable not set or set to the empty string, the constructor raises \<open>UserError\<close>:
  it returns no model, so nothing can be sent. With an explicit key, the empty string
  included, the model is built and holds that key, whatever the environment says;
  without one, a key in the environment that is not empty is the one stored.
\<close>

theorem GeminiModel_init_api_key:
  "(getenv ''GEMINI_API_KEY'' = None \<or> getenv ''GEMINI_API_KEY'' = Some [] \<longrightarrow>
      GeminiModel_init getenv cached_client name None http_client_arg url =
        Inl (UserError
          ''API key must be provided or set in the GEMINI_API_KEY environment variable''))
   \<and> (\<exists>m. GeminiModel_init getenv cached_client name (Some k) http_client_arg url = Inr m
          \<and> api_key m = k)
   \<and> (getenv ''GEMINI_API_KEY'' = Some k \<and> k \<noteq> [] \<longrightarrow>
        (\<exists>m. GeminiModel_init getenv cached_client name None http_client_arg url = Inr m
          \<and> api_key m = k))"
  by (auto simp: GeminiModel_init_def)

theorem GeminiModel_init_api_key_witness:
  "Map.empty ''GEMINI_API_KEY'' = (None :: string option)
   \<and> GeminiModel_init Map.empty (0::nat) Gemini_1_5_flash None None ''u'' =
        Inl (UserError
          ''API key must be provided or set in the GEMINI_API_KEY environment variable'')
   \<and> [''GEMINI_API_KEY'' \<mapsto> ''env-key''] ''GEMINI_API_KEY'' = Some ''env-key''
   \<and> ''env-key'' \<noteq> []
   \<and> (\<exists>m. GeminiModel_init [''GEMINI_API_KEY'' \<mapsto> ''env-key''] (0::nat) Gemini_1_5_flash
            None None ''u'' = Inr m \<and> api_key m = ''env-key'')
   \<and> (\<exists>m. GeminiModel_init [''GEMINI_API_KEY'' \<mapsto> ''env-key''] (0::nat) Gemini_1_5_flash
            (Some ''arg-key'') None ''u'' = Inr m \<and> api_key m = ''arg-key'')
   \<and> GeminiModel_init [''GEMINI_API_KEY'' \<mapsto> []] (0::nat) Gemini_1_5_flash None None ''u'' =
        Inl (UserError
          ''API key must be provided or set in the GEMINI_API_KEY environment variable'')"
  using
    GeminiModel_init_api_key [of Map.empty "0::nat" Gemini_1_5_flash None "''u''" "''x''"]
    GeminiModel_init_api_key [of "[''GEMINI_API_KEY'' \<mapsto> ''env-key'']" "0::nat"
      Gemini_1_5_flash None "''u''" "''env-key''"]
    GeminiModel_init_api_key [of "[''GEMINI_API_KEY'' \<mapsto> ''env-key'']" "0::nat"
      Gemini_1_5_flash None "''u''" "''arg-key''"]
    GeminiModel_init_api_key [of "[''GEMINI_API_KEY'' \<mapsto> []]" "0::nat"
      Gemini_1_5_flash None "''u''" "''x''"]
  by simp

text \<open>
  The claim as written fails for a variable that is set to the empty string: the
  environment provides the value, and the constructor raises, while the same empty
  string given as the argument is stored.
\<close>

theorem GeminiModel_init_empty_env_counterexample:
  "[''GEMINI_API_KEY'' \<mapsto> []] ''GEMINI_API_KEY'' = Some ([] :: string)
   \<and> GeminiModel_init [''GEMINI_API_KEY'' \<mapsto> []] (0::nat) Gemini_1_5_flash None None ''u'' =
        Inl (UserError
          ''API key must be provided or set in the GEMINI_API_KEY environment variable'')
   \<and> (\<exists>m. GeminiModel_init Map.empty (0::nat) Gemini_1_5_flash (Some []) None ''u'' = Inr m
          \<and> api_key m = [])"
  by (simp add: GeminiModel_init_def)

subsection \<open>Building a request\<close>

lemma parts_from_calls_ok:
  "list_all is_args_object calls \<Longrightarrow>
   \<exists>ps. map_result function_call_part_from_call calls = Inr ps"
proof (induction calls)
  case Nil
  show ?case by simp
next
  case (Cons c calls)
  then obtain ps where "map_result function_call_part_from_call calls = Inr ps" by auto
  moreover from Cons.prems have "is_args_object c" by simp
  then obtain p where "function_call_part_from_call c = Inr p"
    by (cases c rule: is_args_object.cases) auto
  ultimately show ?case by simp
qed

lemma parts_from_calls_fail:
  "\<not> list_all is_args_object calls \<Longrightarrow>
   map_result function_call_part_from_call calls = Inl (AssertionError ''Expected ArgsObject'')"
proof (induction calls)
  case Nil
  then show ?case by simp
next
  case (Cons c calls)
  show ?case
  proof (cases c rule: is_args_object.cases)
    case (1 name args_object tid)
    with Cons show ?thesis by simp
  next
    case (2 name args_json tid)
    then show ?thesis by simp
  qed
qed

lemma message_to_gemini_ok:
  "list_all is_args_object (tool_calls_of m) \<Longrightarrow> \<exists>r. message_to_gemini mro mr m = Inr r"
  using parts_from_calls_ok
  by (cases m) (fastforce simp: content_function_call_def)+

lemma message_to_gemini_fail:
  "\<not> list_all is_args_object (tool_calls_of m) \<Longrightarrow>
   message_to_gemini mro mr m = Inl (AssertionError ''Expected ArgsObject'')"
  by (cases m) (simp_all add: content_function_call_def parts_from_calls_fail)

lemma split_messages_ok:
  "list_all is_args_object (concat (map tool_calls_of ms)) \<Longrightarrow>
   \<exists>r. split_messages mro mr ms cs sp = Inr r"
proof (induction ms arbitrary: cs sp)
  case Nil
  show ?case by simp
next
  case (Cons m ms)
  then have "list_all is_args_object (tool_calls_of m)" by simp
  then obtain r where r: "message_to_gemini mro mr m = Inr r"
    using message_to_gemini_ok by blast
  from Cons have "\<And>cs sp. \<exists>r. split_messages mro mr ms cs sp = Inr r" by simp
  with r show ?case by (cases r) simp_all
qed

lemma split_messages_fail:
  "\<not> list_all is_args_object (concat (map tool_calls_of ms)) \<Longrightarrow>
   split_messages mro mr ms cs sp = Inl (AssertionError ''Expected ArgsObject'')"
proof (induction ms arbitrary: cs sp)
  case Nil
  then show ?case by simp
next
  case (Cons m ms)
  show ?case
  proof (cases "list_all is_args_object (tool_calls_of m)")
    case True
    then obtain r where r: "message_to_gemini mro mr m = Inr r"
      using message_to_gemini_ok by blast
    from True Cons.prems have "\<not> list_all is_args_object (concat (map tool_calls_of ms))"
      by simp
    then have "\<And>cs sp. split_messages mro mr ms cs sp =
      Inl (AssertionError ''Expected ArgsObject'')"
      using Cons.IH by blast
    with r show ?thesis by (cases r) simp_all
  next
    case False
    then show ?thesis by (simp add: message_to_gemini_fail)
  qed
qed

text \<open>
  Claim C9. The request data are built exactly when every tool call of every
  \<open>LLMToolCalls\<close> message of the history carries an \<open>ArgsObject\<close>; a call built from a
  raw JSON string makes the assertion of \<^verbatim>\<open>_function_call_part_from_call\<close> fail, and
  the \<open>AssertionError\<close> is what the building returns.
\<close>

theorem make_request_data_args_object:
  "((\<exists>req. make_request_data mro mr self_tools self_tool_config messages = Inr req)
      \<longleftrightarrow> list_all is_args_object (concat (map tool_calls_of messages)))
   \<and> (\<not> list_all is_args_object (concat (map tool_calls_of messages)) \<longrightarrow>
        make_request_data mro mr self_tools self_tool_config messages =
          Inl (AssertionError ''Expected ArgsObject''))"
proof (cases "list_all is_args_object (concat (map tool_calls_of messages))")
  case True
  then obtain r where "split_messages mro mr messages [] [] = Inr r"
    using split_messages_ok by blast
  with True show ?thesis
    by (cases r) (simp add: make_request_data_def)
next
  case False
  then have "split_messages mro mr messages [] [] = Inl (AssertionError ''Expected ArgsObject'')"
    by (rule split_messages_fail)
  with False show ?thesis
    by (simp add: make_request_data_def)
qed


theorem make_request_data_args_object_witness:
  "\<not> list_all is_args_object (concat (map tool_calls_of
        [UserPrompt ''Hi'' 1, LLMToolCalls [from_json ''get_location'' ''{}''] 2]))
   \<and> make_request_data (\<lambda>j. [(''return_value'', j)]) id None None
        [UserPrompt ''Hi'' 1, LLMToolCalls [from_json ''get_location'' ''{}''] 2] =
        Inl (AssertionError ''Expected ArgsObject'')
   \<and> list_all is_args_object (concat (map tool_calls_of
        [UserPrompt ''Hi'' 1, LLMToolCalls [from_object ''get_location'' []] 2]))
   \<and> (\<exists>req. make_request_data (\<lambda>j. [(''return_value'', j)]) id None None
        [UserPrompt ''Hi'' 1, LLMToolCalls [from_object ''get_location'' []] 2] = Inr req)"
  using
    make_request_data_args_object [of "\<lambda>j. [(''return_value'', j)]" id None None
      "[UserPrompt ''Hi'' 1, LLMToolCalls [from_json ''get_location'' ''{}''] 2]"]
    make_request_data_args_object [of "\<lambda>j. [(''return_value'', j)]" id None None
      "[UserPrompt ''Hi'' 1, LLMToolCalls [from_object ''get_location'' []] 2]"]
  by (simp add: from_json_def from_object_def)

subsection \<open>The tool-call cursor\<close>

lemma combine_parts_eq:
  "\<forall>r\<in>set rs. candidates r \<noteq> [] \<Longrightarrow>
   combine_parts rs acc =
     (if \<exists>r\<in>set rs. \<not> all_function_call_parts (candidate_parts r)
                      \<and> finish_reason (hd (candidates r)) = None
      then Inl (UnexpectedModelBehaviour
        ''Streamed response with unexpected content, expected all parts to be function calls'')
      else Inr (acc @ concat (map candidate_parts
                  (filter (\<lambda>r. all_function_call_parts (candidate_parts r)) rs))))"
proof (induction rs arbitrary: acc)
  case Nil
  show ?case by simp
next
  case (Cons r rs)
  then obtain c cs where c: "candidates r = c # cs" by (cases "candidates r") auto
  from Cons have ih: "\<And>acc. combine_parts rs acc =
     (if \<exists>r\<in>set rs. \<not> all_function_call_parts (candidate_parts r)
                      \<and> finish_reason (hd (candidates r)) = None
      then Inl (UnexpectedModelBehaviour
        ''Streamed response with unexpected content, expected all parts to be function calls'')
      else Inr (acc @ concat (map candidate_parts
                  (filter (\<lambda>r. all_function_call_parts (candidate_parts r)) rs))))"
    by simp
  from c have cp: "candidate_parts r = parts (content c)" "hd (candidates r) = c"
    by (simp_all add: candidate_parts_def)
  show ?case
    using c cp by (auto simp: ih Let_def)
qed

text \<open>
  Claim C5, as the code has it, for responses that each have a candidate. \<^verbatim>\<open>get\<close>
  decodes the responses read so far. A response whose parts are all function calls adds
  them to the result; any other response is skipped when its candidate carries a finish
  reason, whatever its parts are, and is fatal (\<open>UnexpectedModelBehaviour\<close>) when it
  carries none. Without a fatal response the result is the \<open>LLMToolCalls\<close> of the
  accumulated parts, in the order of the responses, with the timestamp of the cursor.
\<close>

theorem get_cases:
  "validate_json (sc_content self) = Inr rs \<and> (\<forall>r\<in>set rs. candidates r \<noteq> []) \<longrightarrow>
     ((\<exists>r\<in>set rs. \<not> all_function_call_parts (candidate_parts r)
                    \<and> finish_reason (hd (candidates r)) = None) \<longrightarrow>
        get validate_json now self = Inl (UnexpectedModelBehaviour
          ''Streamed response with unexpected content, expected all parts to be function calls''))
     \<and> ((\<forall>r\<in>set rs. all_function_call_parts (candidate_parts r)
                    \<or> finish_reason (hd (candidates r)) \<noteq> None) \<longrightarrow>
        get validate_json now self =
          Inr (LLMToolCalls
                 (map (\<lambda>p. case p of GeminiFunctionCallPart n a \<Rightarrow> from_object n a)
                    (concat (map candidate_parts
                       (filter (\<lambda>r. all_function_call_parts (candidate_parts r)) rs))))
                 (sc_timestamp self)))"
proof (intro impI conjI)
  assume h: "validate_json (sc_content self) = Inr rs \<and> (\<forall>r\<in>set rs. candidates r \<noteq> [])"
  assume "\<exists>r\<in>set rs. \<not> all_function_call_parts (candidate_parts r)
                    \<and> finish_reason (hd (candidates r)) = None"
  with h show "get validate_json now self = Inl (UnexpectedModelBehaviour
          ''Streamed response with unexpected content, expected all parts to be function calls'')"
    by (simp add: get_def combine_parts_eq)
next
  assume h: "validate_json (sc_content self) = Inr rs \<and> (\<forall>r\<in>set rs. candidates r \<noteq> [])"
  assume ok: "\<forall>r\<in>set rs. all_function_call_parts (candidate_parts r)
                    \<or> finish_reason (hd (candidates r)) \<noteq> None"
  let ?ps = "concat (map candidate_parts
               (filter (\<lambda>r. all_function_call_parts (candidate_parts r)) rs))"
  from h ok have c: "combine_parts rs [] = Inr ?ps"
    by (auto simp: combine_parts_eq)
  have "list_all is_function_call ?ps"
    by (auto simp: list_all_iff all_function_call_parts_def)
  then have "map_result function_call_of ?ps =
    Inr (map (\<lambda>p. case p of GeminiFunctionCallPart n a \<Rightarrow> from_object n a) ?ps)"
    by (rule map_result_function_call_of)
  with h c show "get validate_json now self =
          Inr (LLMToolCalls
                 (map (\<lambda>p. case p of GeminiFunctionCallPart n a \<Rightarrow> from_object n a) ?ps)
                 (sc_timestamp self))"
    by (simp add: get_def tool_call_from_parts_def)
qed

theorem get_cases_witness:
  "get (\<lambda>b. Inr [r_call, r_stop_text]) 9
       \<lparr>sc_content = ''abc'', sc_stream = [], sc_timestamp = 3\<rparr> =
     Inr (LLMToolCalls [from_object ''final_result'' [(''x'', JNum 1)]] 3)
   \<and> get (\<lambda>b. Inr [r_call, r_text]) 9
       \<lparr>sc_content = ''abc'', sc_stream = [], sc_timestamp = 3\<rparr> =
     Inl (UnexpectedModelBehaviour
          ''Streamed response with unexpected content, expected all parts to be function calls'')"
  using
    get_cases [of "\<lambda>b. Inr [r_call, r_stop_text]"
      "\<lparr>sc_content = ''abc'', sc_stream = [], sc_timestamp = 3\<rparr>" "[r_call, r_stop_text]" 9]
    get_cases [of "\<lambda>b. Inr [r_call, r_text]"
      "\<lparr>sc_content = ''abc'', sc_stream = [], sc_timestamp = 3\<rparr>" "[r_call, r_text]" 9]
  by (simp add: r_call_def r_stop_text_def r_text_def candidate_parts_def
      all_function_call_parts_def)

text \<open>
  The claim as written fails for a response with a finish reason and a text part: it is
  skipped, and \<^verbatim>\<open>get\<close> returns without an error.
\<close>

theorem get_finish_reason_counterexample:
  "finish_reason (hd (candidates r_stop_text)) = Some STOP
   \<and> candidate_parts r_stop_text = [GeminiTextPart ''done'']
   \<and> get (\<lambda>b. Inr [r_stop_text]) 9
       \<lparr>sc_content = ''abc'', sc_stream = [], sc_timestamp = 3\<rparr> = Inr (LLMToolCalls [] 3)"
  by (simp add: r_stop_text_def candidate_parts_def get_def all_function_call_parts_def
      tool_call_from_parts_def)


subsection \<open>The start of a streamed response\<close>






subsection \<open>Running the simplifier\<close>

lemma m_simplify_0: "m_simplify (methods_at 0 defs) schema refs_stack s = (Some RecursionError, s)"
  by (simp add: methods_at.simps)

lemma m_object_0: "m_object (methods_at 0 defs) a refs_stack s = (Some RecursionError, s)"
  by (simp add: methods_at.simps)

lemma m_array_0: "m_array (methods_at 0 defs) a refs_stack s = (Some RecursionError, s)"
  by (simp add: methods_at.simps)

lemma m_simplify_Suc:
  "m_simplify (methods_at (Suc d) defs) = simplify_body (methods_at d defs) defs"
  by (simp add: methods_at.simps Let_def)

lemma m_object_Suc: "m_object (methods_at (Suc d) defs) = object_body (methods_at d defs)"
  by (simp add: methods_at.simps Let_def)

lemma m_array_Suc: "m_array (methods_at (Suc d) defs) = array_body (methods_at d defs)"
  by (simp add: methods_at.simps Let_def)

lemma deepcopy_at_numeral:
  "deepcopy_at (numeral k) = deepcopy_body (deepcopy_at (pred_numeral k))"
  by (simp add: numeral_eq_Suc)

lemma m_simplify_numeral:
  "m_simplify (methods_at (numeral k) defs) = simplify_body (methods_at (pred_numeral k) defs) defs"
  by (simp add: numeral_eq_Suc m_simplify_Suc)

lemma m_object_numeral:
  "m_object (methods_at (numeral k) defs) = object_body (methods_at (pred_numeral k) defs)"
  by (simp add: numeral_eq_Suc m_object_Suc)

lemma m_array_numeral:
  "m_array (methods_at (numeral k) defs) = array_body (methods_at (pred_numeral k) defs)"
  by (simp add: numeral_eq_Suc m_array_Suc)

lemmas run =
  simplified_schema_def GeminiJsonSchema_init_def simplify_def simplify_node_def
  deepcopy_at_numeral deepcopy_body_def
  m_simplify_numeral m_object_numeral m_array_numeral
  m_simplify_0 m_object_0 m_array_0 m_simplify_Suc m_object_Suc m_array_Suc
  simplify_body_def object_body_def array_body_def Let_def
  pop_def dict_get_def defs_key_def subscript_def iterate_def dict_values_def
  dict_update_def no_pop_def

lemmas exec =
  m_simplify_0 m_object_0 m_array_0 m_simplify_Suc m_object_Suc m_array_Suc
  simplify_body_def object_body_def array_body_def Let_def
  pop_def dict_get_def defs_key_def subscript_def iterate_def dict_values_def
  dict_update_def no_pop_def

subsection \<open>Additional properties\<close>

lemma pop_other: "b \<noteq> a \<Longrightarrow> pop a k s b = s b"
  by (simp add: pop_def split: option.splits)

lemma pop_same:
  "pop a k s a = AList.delete k (s a)"
  by (simp add: pop_def delete_notin_dom map_of_eq_None_iff AList.delete_id dom_map_of_conv_image_fst
      split: option.splits)

lemma dict_get_pop: "k' \<noteq> k \<Longrightarrow> dict_get (pop a k s a) k' = dict_get (s a) k'"
  by (simp add: pop_same dict_get_def delete_conv)

lemma dict_get_pop_same: "dict_get (pop a k s a) k = PNone"
  by (simp add: pop_same dict_get_def delete_conv)

lemma truthy_pop:
  "dict_get (s a) t = PStr x \<Longrightarrow> t \<noteq> k \<Longrightarrow> truthy (pop a k s) v = truthy s v"
proof (cases v)
  case (PDict b)
  assume t: "dict_get (s a) t = PStr x" "t \<noteq> k"
  then have "dict_get (pop a k s a) t = PStr x" by (simp add: dict_get_pop)
  then have "pop a k s a \<noteq> []" by (auto simp: dict_get_def)
  moreover from t have "s a \<noteq> []" by (auto simp: dict_get_def)
  ultimately show ?thesis using PDict by (cases "b = a") (simp_all add: pop_other)
qed simp_all

lemma each_append:
  "each f (xs @ ys) s =
     (case each f xs s of (Some e, s') \<Rightarrow> (Some e, s') | (None, s') \<Rightarrow> each f ys s')"
proof (induction xs arbitrary: s)
  case Nil
  show ?case by simp
next
  case (Cons x xs)
  show ?case
  proof (cases "f x s")
    case (Pair e s')
    with Cons show ?thesis by (cases e) simp_all
  qed
qed

lemma each_fails:
  "each f pre s = (None, s') \<Longrightarrow> fst (f x s') = Some e \<Longrightarrow>
   fst (each f (pre @ x # post) s) = Some e"
  by (cases "f x s'") (simp add: each_append)

lemma subcall_fails:
  assumes "subcall defs c c'" and "fst (run_call defs c') = Some e"
  shows "fst (run_call defs c) = Some e"
  using assms
proof (induction rule: subcall.induct)
  case (ref a s r refs_stack schema_def d)
  then show ?case
    by (cases "m_simplify (methods_at d defs) schema_def (refs_stack @ [defs_key r]) (popped a s)")
       (simp add: m_simplify_Suc simplify_body_def Let_def popped_def ref_of_def)
next
  case (any_of a s pre x post d refs_stack s')
  then have "fst (each (\<lambda>x. m_simplify (methods_at d defs) x refs_stack) (pre @ x # post)
      (popped a s)) = Some e"
    by (intro each_fails) simp_all
  with any_of show ?case
    by (cases "each (\<lambda>x. m_simplify (methods_at d defs) x refs_stack) (pre @ x # post) (popped a s)")
       (simp add: m_simplify_Suc simplify_body_def Let_def popped_def ref_of_def)
next
  case (object_plain a s d refs_stack)
  then show ?case
    by (simp add: m_simplify_Suc simplify_body_def Let_def popped_def ref_of_def)
next
  case (object_last a s xs d refs_stack s4 a')
  then show ?case
    by (simp add: m_simplify_Suc simplify_body_def Let_def popped_def ref_of_def)
next
  case (array_plain a s d refs_stack)
  then show ?case
    by (simp add: m_simplify_Suc simplify_body_def Let_def popped_def ref_of_def)
next
  case (array_last a s xs d refs_stack s4 a')
  then show ?case
    by (simp add: m_simplify_Suc simplify_body_def Let_def popped_def ref_of_def)
next
  case (property s1 a s pre v post d refs_stack s')
  then have "fst (each (\<lambda>v. m_simplify (methods_at d defs) v refs_stack) (pre @ v # post) s1)
      = Some e"
    by (intro each_fails) simp_all
  with property show ?case
    by (simp add: m_object_Suc object_body_def Let_def)
next
  case (prefix_item s a pre x post d refs_stack s')
  then have "fst (each (\<lambda>x. m_simplify (methods_at d defs) x refs_stack) (pre @ x # post) s)
      = Some e"
    by (intro each_fails) simp_all
  with prefix_item show ?case
    by (cases "each (\<lambda>x. m_simplify (methods_at d defs) x refs_stack) (pre @ x # post) s")
       (simp add: m_array_Suc array_body_def Let_def)
next
  case (items_plain s a d refs_stack)
  then show ?case
    by (simp add: m_array_Suc array_body_def Let_def)
next
  case (items_after s a xs d refs_stack s1)
  then show ?case
    by (simp add: m_array_Suc array_body_def Let_def)
qed

lemma processes_fails:
  "processes defs c c' \<Longrightarrow> fst (run_call defs c') = Some e \<Longrightarrow> fst (run_call defs c) = Some e"
  unfolding processes_def
  by (induction rule: converse_rtranclp_induct) (auto intro: subcall_fails)


lemma node_additional_properties:
  assumes "dict_get (s a) ''type'' = PStr ''object''"
    and "\<not> truthy s (dict_get (s a) ''$ref'')" and "\<not> truthy s (dict_get (s a) ''anyOf'')"
    and "truthy s (dict_get (s a) ''additionalProperties'')"
  shows "fst (m_simplify (methods_at (Suc (Suc n)) defs) (PDict a) refs_stack s) =
    Some (UserError ''Additional properties in JSON Schema are not supported by Gemini'')"
  using assms
  by (simp add: m_simplify_Suc m_object_Suc simplify_body_def object_body_def
      Let_def dict_get_pop dict_get_pop_same truthy_pop [where t = "''type''" and x = "''object''"])

lemma node_no_additional_properties:
  assumes "dict_get (s a) ''type'' = PStr ''object''"
    and "\<not> truthy s (dict_get (s a) ''$ref'')" and "\<not> truthy s (dict_get (s a) ''anyOf'')"
    and "\<not> truthy s (dict_get (s a) ''additionalProperties'')"
  shows "simplify_node (Suc (Suc n)) defs (PDict a) refs_stack s =
     (let s' = pop a ''additionalProperties'' (popped a s) in
      if truthy s' (dict_get (s' a) ''properties'') then
        (case dict_values s' (dict_get (s' a) ''properties'') of
           Inl e \<Rightarrow> (Some e, s')
         | Inr vs \<Rightarrow> each (\<lambda>v. simplify_node n defs v refs_stack) vs s')
      else (None, s'))"
  using assms
  by (simp add: simplify_node_def popped_def m_simplify_Suc m_object_Suc simplify_body_def
      object_body_def Let_def dict_get_pop dict_get_pop_same
      truthy_pop [where t = "''type''" and x = "''object''"] cong: sum.case_cong)

text \<open>
  Claim C3, as the code has it. Take any node that a run of \<^verbatim>\<open>simplify\<close> processes,
  wherever it is in the schema: a dictionary on which \<^verbatim>\<open>_simplify\<close> is called, with
  frames left for that call and for the call of \<^verbatim>\<open>_object\<close>. Let the node have no
  \<^verbatim>\<open>$ref\<close> and no \<^verbatim>\<open>anyOf\<close> (none, or one that is false) and the type \<^verbatim>\<open>object\<close>. If
  the value of \<^verbatim>\<open>additionalProperties\<close> is true (\<^verbatim>\<open>true\<close>, a schema that is not empty),
  \<^verbatim>\<open>simplify\<close> fails with the \<open>UserError\<close>. If it is false (\<^verbatim>\<open>false\<close>, an empty
  schema, no key), the node raises nothing itself: the key is removed, and what the call
  on the node returns is what the loop over its properties returns.
\<close>

theorem object_additional_properties:
  "processes defs (d, Simplify root [], s0) (Suc (Suc n), Simplify (PDict a) refs_stack, s)
   \<and> dict_get (s a) ''type'' = PStr ''object''
   \<and> \<not> truthy s (dict_get (s a) ''$ref'') \<and> \<not> truthy s (dict_get (s a) ''anyOf'') \<longrightarrow>
     (truthy s (dict_get (s a) ''additionalProperties'') \<longrightarrow>
        fst (simplify d \<lparr>js_schema = root, js_defs = defs\<rparr> (s0, lim)) =
          Inl (UserError ''Additional properties in JSON Schema are not supported by Gemini''))
     \<and> (\<not> truthy s (dict_get (s a) ''additionalProperties'') \<longrightarrow>
          dict_get (pop a ''additionalProperties'' (popped a s) a) ''additionalProperties'' = PNone
          \<and> simplify_node (Suc (Suc n)) defs (PDict a) refs_stack s =
             (let s' = pop a ''additionalProperties'' (popped a s) in
              if truthy s' (dict_get (s' a) ''properties'') then
                (case dict_values s' (dict_get (s' a) ''properties'') of
                   Inl e \<Rightarrow> (Some e, s')
                 | Inr vs \<Rightarrow> each (\<lambda>v. simplify_node n defs v refs_stack) vs s')
              else (None, s')))"
proof (intro impI conjI)
  assume h: "processes defs (d, Simplify root [], s0)
      (Suc (Suc n), Simplify (PDict a) refs_stack, s)
   \<and> dict_get (s a) ''type'' = PStr ''object''
   \<and> \<not> truthy s (dict_get (s a) ''$ref'') \<and> \<not> truthy s (dict_get (s a) ''anyOf'')"
  assume t: "truthy s (dict_get (s a) ''additionalProperties'')"
  from h t have "fst (run_call defs (Suc (Suc n), Simplify (PDict a) refs_stack, s)) =
    Some (UserError ''Additional properties in JSON Schema are not supported by Gemini'')"
    by (simp add: node_additional_properties)
  with h have "fst (run_call defs (d, Simplify root [], s0)) =
    Some (UserError ''Additional properties in JSON Schema are not supported by Gemini'')"
    by (blast intro: processes_fails)
  then show "fst (simplify d \<lparr>js_schema = root, js_defs = defs\<rparr> (s0, lim)) =
          Inl (UserError ''Additional properties in JSON Schema are not supported by Gemini'')"
    by (cases "m_simplify (methods_at d defs) root [] s0")
       (simp add: simplify_def simplify_node_def)
next
  show "dict_get (pop a ''additionalProperties'' (popped a s) a) ''additionalProperties'' = PNone"
    by (rule dict_get_pop_same)
next
  assume h: "processes defs (d, Simplify root [], s0)
      (Suc (Suc n), Simplify (PDict a) refs_stack, s)
   \<and> dict_get (s a) ''type'' = PStr ''object''
   \<and> \<not> truthy s (dict_get (s a) ''$ref'') \<and> \<not> truthy s (dict_get (s a) ''anyOf'')"
  assume f: "\<not> truthy s (dict_get (s a) ''additionalProperties'')"
  from h f show "simplify_node (Suc (Suc n)) defs (PDict a) refs_stack s =
             (let s' = pop a ''additionalProperties'' (popped a s) in
              if truthy s' (dict_get (s' a) ''properties'') then
                (case dict_values s' (dict_get (s' a) ''properties'') of
                   Inl e \<Rightarrow> (Some e, s')
                 | Inr vs \<Rightarrow> each (\<lambda>v. simplify_node n defs v refs_stack) vs s')
              else (None, s'))"
    by (intro node_no_additional_properties) simp_all
qed

lemma nested_store_processes:
  "processes (PDict 4) (Suc (Suc (Suc (Suc 0))), Simplify (PDict 0) [], nested_store)
     (Suc (Suc 0), Simplify (PDict 3) [], nested_store(2 := [(''type'', PStr ''string'')]))"
proof -
  have p: "popped 0 nested_store = nested_store"
    by (simp add: popped_def pop_def nested_store_def)
  have "subcall (PDict 4) (Suc (Suc (Suc (Suc 0))), Simplify (PDict 0) [], nested_store)
      (Suc (Suc (Suc 0)), Object 0 [], popped 0 nested_store)"
    by (rule subcall.object_plain)
       (simp_all add: popped_def ref_of_def pop_def dict_get_def nested_store_def)
  then have one: "subcall (PDict 4) (Suc (Suc (Suc (Suc 0))), Simplify (PDict 0) [], nested_store)
      (Suc (Suc (Suc 0)), Object 0 [], nested_store)"
    by (simp only: p)
  have two: "subcall (PDict 4) (Suc (Suc (Suc 0)), Object 0 [], nested_store)
      (Suc (Suc 0), Simplify (PDict 3) [], nested_store(2 := [(''type'', PStr ''string'')]))"
  proof (rule subcall.property [where pre = "[PDict 2]" and post = "[]"])
    show "nested_store = pop 0 ''additionalProperties'' nested_store"
      by (simp add: pop_def nested_store_def)
    show "\<not> truthy nested_store (dict_get (nested_store 0) ''additionalProperties'')"
      by (simp add: dict_get_def nested_store_def)
    show "truthy nested_store (dict_get (nested_store 0) ''properties'')"
      by (simp add: dict_get_def nested_store_def)
    show "dict_values nested_store (dict_get (nested_store 0) ''properties'')
        = Inr ([PDict 2] @ PDict 3 # [])"
      by (simp add: dict_get_def dict_values_def nested_store_def)
    show "each (\<lambda>v. m_simplify (methods_at (Suc (Suc 0)) (PDict 4)) v []) [PDict 2] nested_store
        = (None, nested_store(2 := [(''type'', PStr ''string'')]))"
      by (simp add: exec nested_store_def)
  qed
  from one two show ?thesis
    unfolding processes_def by (rule converse_rtranclp_into_rtranclp [OF _ r_into_rtranclp])
qed

lemma processes_refl: "processes defs c c"
  by (simp add: processes_def)

theorem object_additional_properties_witness:
  "processes (PDict 4) (Suc (Suc (Suc (Suc 0))), Simplify (PDict 0) [], nested_store)
     (Suc (Suc 0), Simplify (PDict 3) [], nested_store(2 := [(''type'', PStr ''string'')]))
   \<and> dict_get ((nested_store(2 := [(''type'', PStr ''string'')])) 3) ''type'' = PStr ''object''
   \<and> truthy (nested_store(2 := [(''type'', PStr ''string'')]))
        (dict_get ((nested_store(2 := [(''type'', PStr ''string'')])) 3) ''additionalProperties'')
   \<and> fst (simplify (Suc (Suc (Suc (Suc 0)))) \<lparr>js_schema = PDict 0, js_defs = PDict 4\<rparr>
          (nested_store, 5)) =
        Inl (UserError ''Additional properties in JSON Schema are not supported by Gemini'')
   \<and> processes PNone (Suc (Suc (Suc 0)), Simplify (PDict 0) [], example_store)
        (Suc (Suc (Suc 0)), Simplify (PDict 0) [], example_store)
   \<and> dict_get (example_store 0) ''type'' = PStr ''object''
   \<and> \<not> truthy example_store (dict_get (example_store 0) ''additionalProperties'')
   \<and> fst (simplify_node (Suc (Suc (Suc 0))) PNone (PDict 0) [] example_store) = None
   \<and> snd (simplify_node (Suc (Suc (Suc 0))) PNone (PDict 0) [] example_store) 0 =
        [(''type'', PStr ''object''), (''properties'', PDict 1)]"
proof -
  have strict: "fst (simplify (Suc (Suc (Suc (Suc 0)))) \<lparr>js_schema = PDict 0, js_defs = PDict 4\<rparr>
          (nested_store, 5)) =
        Inl (UserError ''Additional properties in JSON Schema are not supported by Gemini'')"
    using nested_store_processes
      object_additional_properties [of "PDict 4" "Suc (Suc (Suc (Suc 0)))" "PDict 0" nested_store
        0 3 "[]" "nested_store(2 := [(''type'', PStr ''string'')])" 5]
    by (simp add: nested_store_def dict_get_def)
  have lax: "simplify_node (Suc (Suc (Suc 0))) PNone (PDict 0) [] example_store =
     (let s' = pop 0 ''additionalProperties'' (popped 0 example_store) in
      if truthy s' (dict_get (s' 0) ''properties'') then
        (case dict_values s' (dict_get (s' 0) ''properties'') of
           Inl e \<Rightarrow> (Some e, s')
         | Inr vs \<Rightarrow> each (\<lambda>v. simplify_node (Suc 0) PNone v []) vs s')
      else (None, s'))"
    using processes_refl [of PNone "(Suc (Suc (Suc 0)), Simplify (PDict 0) [], example_store)"]
      object_additional_properties [of PNone "Suc (Suc (Suc 0))" "PDict 0" example_store
        "Suc 0" 0 "[]" example_store 3]
    by (simp add: example_store_def dict_get_def)
  have "fst (simplify_node (Suc (Suc (Suc 0))) PNone (PDict 0) [] example_store) = None"
    "snd (simplify_node (Suc (Suc (Suc 0))) PNone (PDict 0) [] example_store) 0 =
        [(''type'', PStr ''object''), (''properties'', PDict 1)]"
    unfolding lax
    by (simp_all add: popped_def simplify_node_def exec example_store_def)
  with strict nested_store_processes
    processes_refl [of PNone "(Suc (Suc (Suc 0)), Simplify (PDict 0) [], example_store)"]
  show ?thesis
    by (simp add: nested_store_def example_store_def dict_get_def)
qed

text \<open>
  The claim as written fails for \<^verbatim>\<open>additionalProperties: false\<close> on an object node: the
  schema of \<open>example_store\<close> is simplified without an error, and the copy has lost the
  key.
\<close>

theorem additional_properties_false_counterexample:
  "dict_get (example_store 0) ''type'' = PStr ''object''
   \<and> dict_get (example_store 0) ''additionalProperties'' = PBool False
   \<and> fst (simplified_schema 20 20 (PDict 0) (example_store, 3)) = Inr (PDict 3)
   \<and> fst (snd (simplified_schema 20 20 (PDict 0) (example_store, 3))) 3 =
       [(''type'', PStr ''object''), (''properties'', PDict 4)]"
  by (simp add: run example_store_def)

subsection \<open>The caller's schema\<close>

lemma daddrs_Nil [simp]: "daddrs [] = {}"
  by (simp add: daddrs_def)

lemma daddrs_delete: "daddrs (AList.delete k d) \<subseteq> daddrs d"
  by (auto simp: daddrs_def AList.delete_eq)

lemma daddrs_update: "daddrs (AList.update k v d) \<subseteq> daddrs d \<union> vaddrs v"
  by (induction d) (auto simp: daddrs_def)

lemma daddrs_dict_update: "daddrs (dict_update d e) \<subseteq> daddrs d \<union> daddrs e"
proof (induction e arbitrary: d)
  case Nil
  show ?case by (simp add: dict_update_def)
next
  case (Cons kv e)
  have "dict_update d (kv # e) = dict_update (AList.update (fst kv) (snd kv) d) e"
    by (simp add: dict_update_def split: prod.splits)
  moreover have "daddrs (dict_update (AList.update (fst kv) (snd kv) d) e)
      \<subseteq> daddrs (AList.update (fst kv) (snd kv) d) \<union> daddrs e"
    by (rule Cons.IH)
  moreover have "daddrs (AList.update (fst kv) (snd kv) d) \<subseteq> daddrs d \<union> vaddrs (snd kv)"
    by (rule daddrs_update)
  moreover have "daddrs (kv # e) = vaddrs (snd kv) \<union> daddrs e"
    by (simp add: daddrs_def)
  ultimately show ?case by auto
qed

lemma vaddrs_dict_get: "vaddrs (dict_get d k) \<subseteq> daddrs d"
  by (auto simp: dict_get_def daddrs_def split: option.splits dest!: map_of_SomeD)

lemma closed_get: "closed F s \<Longrightarrow> a \<in> F \<Longrightarrow> vaddrs (dict_get (s a) k) \<subseteq> F"
  using vaddrs_dict_get by (fastforce simp: closed_def)

lemma closed_pop: "closed F s \<Longrightarrow> closed F (pop a k s)"
  unfolding closed_def
proof
  fix b assume c: "\<forall>a\<in>F. daddrs (s a) \<subseteq> F" and b: "b \<in> F"
  show "daddrs (pop a k s b) \<subseteq> F"
  proof (cases "b = a")
    case True
    then have "daddrs (pop a k s b) \<subseteq> daddrs (s b)"
      by (simp add: pop_same daddrs_delete)
    with c b show ?thesis by blast
  next
    case False
    with c b show ?thesis by (simp add: pop_other)
  qed
qed

lemma closed_update:
  "closed F s \<Longrightarrow> a \<in> F \<Longrightarrow> b \<in> F \<Longrightarrow> closed F (s(a := dict_update (s a) (s b)))"
  using daddrs_dict_update by (fastforce simp: closed_def)

lemma closed_mem:
  "closed F s \<Longrightarrow> a \<in> F \<Longrightarrow> (k, x) \<in> set (s a) \<Longrightarrow> vaddrs x \<subseteq> F"
  by (fastforce simp: closed_def daddrs_def)

lemma pop_frame: "a \<in> F \<Longrightarrow> b \<notin> F \<Longrightarrow> pop a k s b = s b"
  by (rule pop_other) auto

lemma closed_subscript:
  "closed F s \<Longrightarrow> vaddrs v \<subseteq> F \<Longrightarrow> subscript s v key = Inr x \<Longrightarrow> vaddrs x \<subseteq> F"
  by (cases v)
     (auto simp: subscript_def split: option.splits dest!: map_of_SomeD dest: closed_mem)

lemma closed_iterate:
  "closed F s \<Longrightarrow> vaddrs v \<subseteq> F \<Longrightarrow> iterate s v = Inr xs \<Longrightarrow> x \<in> set xs \<Longrightarrow> vaddrs x \<subseteq> F"
  by (cases v) (auto simp: iterate_def)

lemma iterate_nonempty: "truthy s v \<Longrightarrow> iterate s v = Inr xs \<Longrightarrow> xs \<noteq> []"
  by (cases v) (auto simp: iterate_def)

lemma closed_dict_values:
  "closed F s \<Longrightarrow> vaddrs v \<subseteq> F \<Longrightarrow> dict_values s v = Inr xs \<Longrightarrow> x \<in> set xs \<Longrightarrow> vaddrs x \<subseteq> F"
proof -
  assume c: "closed F s" and v: "vaddrs v \<subseteq> F" and d: "dict_values s v = Inr xs"
    and x: "x \<in> set xs"
  from d obtain a where a: "v = PDict a" "xs = map snd (s a)"
    by (cases v) (auto simp: dict_values_def)
  with x obtain k where "(k, x) \<in> set (s a)" by auto
  moreover from a v have "a \<in> F" by simp
  ultimately show "vaddrs x \<subseteq> F" using c by (blast dest: closed_mem)
qed

lemma preservesI:
  "(\<And>s. closed F s \<Longrightarrow> closed F (snd (f s)) \<and> (\<forall>a. a \<notin> F \<longrightarrow> snd (f s) a = s a))
   \<Longrightarrow> preserves F f"
  by (simp add: preserves_def)

lemma preservesD:
  "preserves F f \<Longrightarrow> closed F s \<Longrightarrow> f s = (e, s') \<Longrightarrow>
   closed F s' \<and> (\<forall>a. a \<notin> F \<longrightarrow> s' a = s a)"
  by (auto simp: preserves_def dest!: spec [of _ s])

lemma preserves_each:
  "(\<And>x. x \<in> set xs \<Longrightarrow> preserves F (f x)) \<Longrightarrow> preserves F (each f xs)"
proof (induction xs)
  case Nil
  show ?case by (simp add: preserves_def)
next
  case (Cons x xs)
  then have fx: "preserves F (f x)" and rest: "preserves F (each f xs)" by simp_all
  show ?case
  proof (rule preservesI)
    fix s assume c: "closed F s"
    obtain e s' where r: "f x s = (e, s')" by (cases "f x s")
    with fx c have s': "closed F s'" "\<forall>a. a \<notin> F \<longrightarrow> s' a = s a"
      by (auto dest: preservesD)
    show "closed F (snd (each f (x # xs) s))
        \<and> (\<forall>a. a \<notin> F \<longrightarrow> snd (each f (x # xs) s) a = s a)"
    proof (cases e)
      case None
      obtain e2 s2 where r2: "each f xs s' = (e2, s2)" by (cases "each f xs s'")
      with rest s' have "closed F s2" "\<forall>a. a \<notin> F \<longrightarrow> s2 a = s' a"
        by (auto dest: preservesD)
      with s' r r2 None show ?thesis by simp
    next
      case (Some err)
      with s' r show ?thesis by simp
    qed
  qed
qed

lemma object_body_preserves:
  assumes self: "methods_frame F self" and a: "a \<in> F"
  shows "preserves F (object_body self a refs_stack)"
proof (rule preservesI)
  fix s assume c: "closed F s"
  define s1 where "s1 = pop a ''additionalProperties'' s"
  have c1: "closed F s1" "\<forall>b. b \<notin> F \<longrightarrow> s1 b = s b"
    using c a by (auto simp: s1_def closed_pop pop_frame)
  define properties where "properties = dict_get (s1 a) ''properties''"
  have p: "vaddrs properties \<subseteq> F"
    using c1 a by (simp add: properties_def closed_get)
  show "closed F (snd (object_body self a refs_stack s))
      \<and> (\<forall>b. b \<notin> F \<longrightarrow> snd (object_body self a refs_stack s) b = s b)"
  proof (cases "dict_values s1 properties")
    case (Inl e)
    with c1 show ?thesis
      by (simp add: object_body_def Let_def s1_def [symmetric] properties_def [symmetric])
  next
    case (Inr vs)
    have "preserves F (each (\<lambda>v. m_simplify self v refs_stack) vs)"
    proof (rule preserves_each)
      fix x assume x: "x \<in> set vs"
      have "vaddrs x \<subseteq> F" using c1(1) p Inr x by (rule closed_dict_values)
      with self show "preserves F (m_simplify self x refs_stack)"
        by (simp add: methods_frame_def)
    qed
    then have "closed F (snd (each (\<lambda>v. m_simplify self v refs_stack) vs s1))
      \<and> (\<forall>b. b \<notin> F \<longrightarrow> snd (each (\<lambda>v. m_simplify self v refs_stack) vs s1) b = s1 b)"
      using c1 by (simp add: preserves_def)
    with c1 Inr show ?thesis
      by (simp add: object_body_def Let_def s1_def [symmetric] properties_def [symmetric])
  qed
qed


lemma loop_preserves:
  assumes self: "methods_frame F self" and c: "closed F s" and v: "vaddrs v \<subseteq> F"
    and r: "r = (if truthy s v then
                  (case iterate s v of
                     Inl e \<Rightarrow> (Some e, s)
                   | Inr xs \<Rightarrow> each (\<lambda>x. m_simplify self x refs_stack) xs s)
                else (None, s))"
  shows "closed F (snd r) \<and> (\<forall>b. b \<notin> F \<longrightarrow> snd r b = s b)"
proof (cases "truthy s v")
  case False
  with r c show ?thesis by simp
next
  case True
  show ?thesis
  proof (cases "iterate s v")
    case (Inl e)
    with True r c show ?thesis by simp
  next
    case (Inr xs)
    have "preserves F (each (\<lambda>x. m_simplify self x refs_stack) xs)"
    proof (rule preserves_each)
      fix x assume x: "x \<in> set xs"
      have "vaddrs x \<subseteq> F" using c v Inr x by (rule closed_iterate)
      with self show "preserves F (m_simplify self x refs_stack)"
        by (simp add: methods_frame_def)
    qed
    with c have "closed F (snd (each (\<lambda>x. m_simplify self x refs_stack) xs s))
      \<and> (\<forall>b. b \<notin> F \<longrightarrow> snd (each (\<lambda>x. m_simplify self x refs_stack) xs s) b = s b)"
      by (simp add: preserves_def)
    with True Inr r show ?thesis by simp
  qed
qed

lemma array_body_preserves:
  assumes self: "methods_frame F self" and a: "a \<in> F"
  shows "preserves F (array_body self a refs_stack)"
proof (rule preservesI)
  fix s assume c: "closed F s"
  define prefix_items where "prefix_items = dict_get (s a) ''prefixItems''"
  define r where "r = (if truthy s prefix_items then
                  (case iterate s prefix_items of
                     Inl e \<Rightarrow> (Some e, s)
                   | Inr xs \<Rightarrow> each (\<lambda>x. m_simplify self x refs_stack) xs s)
                else (None, s))"
  have "vaddrs prefix_items \<subseteq> F"
    using c a by (simp add: prefix_items_def closed_get)
  with self c have r1: "closed F (snd r) \<and> (\<forall>b. b \<notin> F \<longrightarrow> snd r b = s b)"
    using r_def by (rule loop_preserves)
  obtain e1 s1 where rs: "r = (e1, s1)" by (cases r)
  with r1 have c1: "closed F s1" "\<forall>b. b \<notin> F \<longrightarrow> s1 b = s b" by simp_all
  define items_schema where "items_schema = dict_get (s1 a) ''items''"
  have "vaddrs items_schema \<subseteq> F"
    using c1 a by (simp add: items_schema_def closed_get)
  with self have "preserves F (m_simplify self items_schema refs_stack)"
    by (simp add: methods_frame_def)
  with c1 have r2: "closed F (snd (m_simplify self items_schema refs_stack s1))
    \<and> (\<forall>b. b \<notin> F \<longrightarrow> snd (m_simplify self items_schema refs_stack s1) b = s1 b)"
    by (simp add: preserves_def)
  have "array_body self a refs_stack s =
    (case r of
        (Some e, s1) \<Rightarrow> (Some e, s1)
      | (None, s1) \<Rightarrow>
          (let items_schema = dict_get (s1 a) ''items'' in
           if truthy s1 items_schema then m_simplify self items_schema refs_stack s1
           else (None, s1)))"
    by (simp add: array_body_def Let_def r_def prefix_items_def)
  with rs c1 r2 show "closed F (snd (array_body self a refs_stack s))
      \<and> (\<forall>b. b \<notin> F \<longrightarrow> snd (array_body self a refs_stack s) b = s b)"
    by (cases e1) (simp_all add: Let_def items_schema_def)
qed


lemma any_of_preserves:
  assumes self: "methods_frame F self" and c: "closed F s" and v: "vaddrs v \<subseteq> F"
    and schema: "vaddrs schema \<subseteq> F"
    and r: "r = (if truthy s v then
                  (case iterate s v of
                     Inl e \<Rightarrow> (Some e, s, schema)
                   | Inr xs \<Rightarrow>
                       (case each (\<lambda>x. m_simplify self x refs_stack) xs s of
                          (Some e, s4) \<Rightarrow> (Some e, s4, schema)
                        | (None, s4) \<Rightarrow> (None, s4, last xs)))
                else (None, s, schema))"
  shows "closed F (fst (snd r)) \<and> (\<forall>b. b \<notin> F \<longrightarrow> fst (snd r) b = s b)
         \<and> vaddrs (snd (snd r)) \<subseteq> F"
proof (cases "truthy s v")
  case False
  with r c schema show ?thesis by simp
next
  case True
  show ?thesis
  proof (cases "iterate s v")
    case (Inl e)
    with True r c schema show ?thesis by simp
  next
    case (Inr xs)
    have "preserves F (each (\<lambda>x. m_simplify self x refs_stack) xs)"
    proof (rule preserves_each)
      fix x assume x: "x \<in> set xs"
      have "vaddrs x \<subseteq> F" using c v Inr x by (rule closed_iterate)
      with self show "preserves F (m_simplify self x refs_stack)"
        by (simp add: methods_frame_def)
    qed
    moreover obtain e4 s4 where e: "each (\<lambda>x. m_simplify self x refs_stack) xs s = (e4, s4)"
      by (cases "each (\<lambda>x. m_simplify self x refs_stack) xs s")
    ultimately have c4: "closed F s4" "\<forall>b. b \<notin> F \<longrightarrow> s4 b = s b"
      using c by (auto dest: preservesD)
    from True Inr have "xs \<noteq> []" by (rule iterate_nonempty)
    then have "last xs \<in> set xs" by simp
    with c v Inr have "vaddrs (last xs) \<subseteq> F" by (rule closed_iterate)
    with True Inr r e c4 schema show ?thesis by (cases e4) simp_all
  qed
qed

lemma simplify_body_preserves:
  assumes self: "methods_frame F self" and defs: "vaddrs defs \<subseteq> F"
    and schema: "vaddrs schema \<subseteq> F"
  shows "preserves F (simplify_body self defs schema refs_stack)"
proof (rule preservesI)
  fix s assume c: "closed F s"
  show "closed F (snd (simplify_body self defs schema refs_stack s))
      \<and> (\<forall>b. b \<notin> F \<longrightarrow> snd (simplify_body self defs schema refs_stack s) b = s b)"
  proof (cases "\<exists>a. schema = PDict a")
    case False
    then have "simplify_body self defs schema refs_stack s = (Some (no_pop schema), s)"
      by (cases schema) (simp_all add: simplify_body_def)
    with c show ?thesis by simp
  next
    case True
    then obtain a where a: "schema = PDict a" by blast
    with schema have aF: "a \<in> F" by simp
    let ?s2 = "pop a ''default'' (pop a ''title'' s)"
    let ?ref = "dict_get (?s2 a) ''$ref''"
    let ?s3 = "pop a ''$ref'' ?s2"
    have c3: "closed F ?s3" using c by (simp add: closed_pop)
    have f3: "\<forall>b. b \<notin> F \<longrightarrow> ?s3 b = s b" using aF by (simp add: pop_frame)
    show ?thesis
    proof (cases "truthy ?s3 ?ref")
      case ref: True
      show ?thesis
      proof (cases "\<exists>r. ?ref = PStr r")
        case False
        then have "simplify_body self defs schema refs_stack s = (Some TypeError, ?s3)"
          using a ref by (cases ?ref) (simp_all add: simplify_body_def Let_def)
        with c3 f3 show ?thesis by simp
      next
        case True
        then obtain r where r: "?ref = PStr r" by blast
        let ?key = "defs_key r"
        show ?thesis
        proof (cases "?key \<in> set refs_stack")
          case True
          then have "simplify_body self defs schema refs_stack s =
            (Some (UserError ''Recursive `$ref`s in JSON Schema are not supported by Gemini''), ?s3)"
            using a ref r by (simp add: simplify_body_def Let_def)
          with c3 f3 show ?thesis by simp
        next
          case nk: False
          show ?thesis
          proof (cases "subscript ?s3 defs ?key")
            case (Inl e)
            then have "simplify_body self defs schema refs_stack s = (Some e, ?s3)"
              using a ref r nk by (simp add: simplify_body_def Let_def)
            with c3 f3 show ?thesis by simp
          next
            case (Inr schema_def)
            have sd: "vaddrs schema_def \<subseteq> F" using c3 defs Inr by (rule closed_subscript)
            obtain e4 s4 where r4:
              "m_simplify self schema_def (refs_stack @ [?key]) ?s3 = (e4, s4)"
              by (cases "m_simplify self schema_def (refs_stack @ [?key]) ?s3")
            from self sd have "preserves F (m_simplify self schema_def (refs_stack @ [?key]))"
              by (simp add: methods_frame_def)
            with c3 r4 have c4: "closed F s4" "\<forall>b. b \<notin> F \<longrightarrow> s4 b = ?s3 b"
              by (auto dest: preservesD)
            show ?thesis
            proof (cases e4)
              case (Some e)
              then have "simplify_body self defs schema refs_stack s = (Some e, s4)"
                using a ref r nk Inr r4 by (simp add: simplify_body_def Let_def)
              with c4 f3 show ?thesis by simp
            next
              case None
              show ?thesis
              proof (cases "\<exists>b. schema_def = PDict b")
                case False
                then have "simplify_body self defs schema refs_stack s = (Some TypeError, s4)"
                  using a ref r nk Inr r4 None
                  by (cases schema_def) (simp_all add: simplify_body_def Let_def)
                with c4 f3 show ?thesis by simp
              next
                case True
                then obtain b where b: "schema_def = PDict b" by blast
                with sd have bF: "b \<in> F" by simp
                have "simplify_body self defs schema refs_stack s =
                  (None, s4(a := dict_update (s4 a) (s4 b)))"
                  using a ref r nk Inr r4 None b by (simp add: simplify_body_def Let_def)
                moreover have "closed F (s4(a := dict_update (s4 a) (s4 b)))"
                  using c4(1) aF bF by (rule closed_update)
                ultimately show ?thesis using c4 f3 aF by auto
              qed
            qed
          qed
        qed
      qed
    next
      case noref: False
      let ?any_of = "dict_get (?s3 a) ''anyOf''"
      define r where "r = (if truthy ?s3 ?any_of then
                  (case iterate ?s3 ?any_of of
                     Inl e \<Rightarrow> (Some e, ?s3, PDict a)
                   | Inr xs \<Rightarrow>
                       (case each (\<lambda>x. m_simplify self x refs_stack) xs ?s3 of
                          (Some e, s4) \<Rightarrow> (Some e, s4, PDict a)
                        | (None, s4) \<Rightarrow> (None, s4, last xs)))
                else (None, ?s3, PDict a))"
      have "vaddrs ?any_of \<subseteq> F" using c3 aF by (rule closed_get)
      moreover have "vaddrs (PDict a) \<subseteq> F" using aF by simp
      ultimately have "closed F (fst (snd r)) \<and> (\<forall>b. b \<notin> F \<longrightarrow> fst (snd r) b = ?s3 b)
         \<and> vaddrs (snd (snd r)) \<subseteq> F"
        using self c3 r_def by (intro any_of_preserves)
      moreover obtain e4 s4 schema' where rr: "r = (e4, s4, schema')" by (cases r)
      ultimately have c4: "closed F s4" "\<forall>b. b \<notin> F \<longrightarrow> s4 b = ?s3 b" "vaddrs schema' \<subseteq> F"
        by simp_all
      have body: "simplify_body self defs schema refs_stack s =
        (case r of
           (Some e, s4, schema') \<Rightarrow> (Some e, s4)
         | (None, s4, schema') \<Rightarrow>
             (case schema' of
                PDict a' \<Rightarrow>
                  (let ty = dict_get (s4 a') ''type'' in
                   if ty = PStr ''object'' then m_object self a' refs_stack s4
                   else if ty = PStr ''array'' then m_array self a' refs_stack s4
                   else (None, s4))
              | _ \<Rightarrow> (Some AttributeError, s4)))"
        using a noref by (simp add: simplify_body_def Let_def r_def)
      show ?thesis
      proof (cases e4)
        case (Some e)
        with body rr c4 f3 show ?thesis by simp
      next
        case None
        show ?thesis
        proof (cases "\<exists>a'. schema' = PDict a'")
          case False
          then have "simplify_body self defs schema refs_stack s = (Some AttributeError, s4)"
            using body rr None by (cases schema') simp_all
          with c4 f3 show ?thesis by simp
        next
          case True
          then obtain a' where a': "schema' = PDict a'" by blast
          with c4 have a'F: "a' \<in> F" by simp
          from self a'F have "preserves F (m_object self a' refs_stack)"
            "preserves F (m_array self a' refs_stack)"
            by (simp_all add: methods_frame_def)
          with c4 have
            "closed F (snd (m_object self a' refs_stack s4))
              \<and> (\<forall>b. b \<notin> F \<longrightarrow> snd (m_object self a' refs_stack s4) b = s4 b)"
            "closed F (snd (m_array self a' refs_stack s4))
              \<and> (\<forall>b. b \<notin> F \<longrightarrow> snd (m_array self a' refs_stack s4) b = s4 b)"
            by (simp_all add: preserves_def)
          with body rr None a' c4 f3 show ?thesis by (simp add: Let_def)
        qed
      qed
    qed
  qed
qed

lemma methods_at_frame: "vaddrs defs \<subseteq> F \<Longrightarrow> methods_frame F (methods_at d defs)"
proof (induction d)
  case 0
  show ?case by (simp add: methods_frame_def preserves_def methods_at.simps)
next
  case (Suc d)
  then have self: "methods_frame F (methods_at d defs)" by simp
  show ?case
    unfolding methods_frame_def m_simplify_Suc m_object_Suc m_array_Suc
    using self Suc.prems
    by (auto intro: simplify_body_preserves object_body_preserves array_body_preserves)
qed


lemma copiesD:
  "copies lim0 s0 f \<Longrightarrow> copy_inv lim0 s0 st \<Longrightarrow> f x st = (e, v, st') \<Longrightarrow>
   copy_inv lim0 s0 st' \<and> fst (snd st) \<le> fst (snd st') \<and> vaddrs v \<subseteq> {lim0..<fst (snd st')}"
  unfolding copies_def by blast

lemma copy_items_inv:
  assumes f: "copies lim0 s0 f"
  shows "copy_inv lim0 s0 st \<Longrightarrow> lim0 \<le> y \<Longrightarrow> y < fst (snd st) \<Longrightarrow>
         copy_items f y kvs st = (e, st') \<Longrightarrow>
         copy_inv lim0 s0 st' \<and> fst (snd st) \<le> fst (snd st')"
proof (induction kvs arbitrary: st)
  case Nil
  then show ?case by simp
next
  case (Cons kv kvs)
  obtain e1 v1 st1 where r1: "f (snd kv) st = (e1, v1, st1)" by (cases "f (snd kv) st")
  with f Cons.prems(1) have i1: "copy_inv lim0 s0 st1" "fst (snd st) \<le> fst (snd st1)"
    "vaddrs v1 \<subseteq> {lim0..<fst (snd st1)}"
    by (auto dest: copiesD)
  show ?case
  proof (cases e1)
    case (Some err)
    with Cons.prems r1 i1 show ?thesis by simp
  next
    case None
    obtain s1 lim1 memo1 where st1: "st1 = (s1, lim1, memo1)" by (cases st1)
    let ?st2 = "(s1(y := AList.update (fst kv) v1 (s1 y)), lim1, memo1)"
    from i1 st1 Cons.prems(3) have y1: "y < lim1" by simp
    from i1 st1 Cons.prems(2) have d1: "daddrs (s1 y) \<subseteq> {lim0..<lim1}"
      by (simp add: copy_inv_def)
    from i1 st1 have d2: "vaddrs v1 \<subseteq> {lim0..<lim1}" by simp
    have "daddrs (AList.update (fst kv) v1 (s1 y)) \<subseteq> daddrs (s1 y) \<union> vaddrs v1"
      by (rule daddrs_update)
    with d1 d2 have "daddrs (AList.update (fst kv) v1 (s1 y)) \<subseteq> {lim0..<lim1}"
      by blast
    with i1 st1 y1 Cons.prems(2) have i2: "copy_inv lim0 s0 ?st2"
      by (auto simp: copy_inv_def)
    from None r1 st1 Cons.prems(4) have "copy_items f y kvs ?st2 = (e, st')" by simp
    with i2 Cons.prems(2) y1 have "copy_inv lim0 s0 st' \<and> fst (snd ?st2) \<le> fst (snd st')"
      by (intro Cons.IH) simp_all
    with i1 st1 show ?thesis by simp
  qed
qed

lemma copy_list_inv:
  assumes f: "copies lim0 s0 f"
  shows "copy_inv lim0 s0 st \<Longrightarrow> copy_list f xs st = (e, ys, st') \<Longrightarrow>
         copy_inv lim0 s0 st' \<and> fst (snd st) \<le> fst (snd st')
         \<and> (\<forall>y\<in>set ys. vaddrs y \<subseteq> {lim0..<fst (snd st')})"
proof (induction xs arbitrary: st e ys st')
  case Nil
  then show ?case by simp
next
  case (Cons x xs)
  obtain e1 v1 st1 where r1: "f x st = (e1, v1, st1)" by (cases "f x st")
  with f Cons.prems(1) have i1: "copy_inv lim0 s0 st1" "fst (snd st) \<le> fst (snd st1)"
    "vaddrs v1 \<subseteq> {lim0..<fst (snd st1)}"
    by (auto dest: copiesD)
  show ?case
  proof (cases e1)
    case (Some err)
    with Cons.prems r1 i1 show ?thesis by auto
  next
    case None
    obtain e2 ys2 st2 where r2: "copy_list f xs st1 = (e2, ys2, st2)"
      by (cases "copy_list f xs st1")
    with i1 have i2: "copy_inv lim0 s0 st2 \<and> fst (snd st1) \<le> fst (snd st2)
         \<and> (\<forall>y\<in>set ys2. vaddrs y \<subseteq> {lim0..<fst (snd st2)})"
      by (intro Cons.IH)
    show ?thesis
    proof (cases e2)
      case (Some err)
      with None r1 r2 Cons.prems i1 i2 show ?thesis by auto
    next
      case e2: None
      with None r1 r2 Cons.prems(2) have "ys = v1 # ys2" "st' = st2" by simp_all
      with i1 i2 show ?thesis by fastforce
    qed
  qed
qed

lemma deepcopy_body_copies:
  assumes f: "copies lim0 s0 f"
  shows "copies lim0 s0 (deepcopy_body f)"
  unfolding copies_def
proof (intro allI impI)
  fix x st e v st'
  assume inv: "copy_inv lim0 s0 st" and r: "deepcopy_body f x st = (e, v, st')"
  obtain s lim memo where st: "st = (s, lim, memo)" by (cases st)
  show "copy_inv lim0 s0 st' \<and> fst (snd st) \<le> fst (snd st')
        \<and> vaddrs v \<subseteq> {lim0..<fst (snd st')}"
  proof (cases x)
    case (PDict a)
    show ?thesis
    proof (cases "map_of memo a")
      case (Some y)
      then have "(a, y) \<in> set memo" by (rule map_of_SomeD)
      then have "y \<in> snd ` set memo" by force
      with inv st have y: "y \<in> {lim0..<lim}" by (auto simp: copy_inv_def)
      from r st PDict Some have "v = PDict y" "st' = st"
        by (simp_all add: deepcopy_body_def)
      with y st inv show ?thesis by simp
    next
      case None
      let ?st1 = "(s(lim := []), Suc lim, (a, lim) # memo)"
      from inv st have A: "lim0 \<le> lim" and B: "\<forall>b\<ge>lim. s b = []"
        and C: "\<forall>b\<ge>lim0. daddrs (s b) \<subseteq> {lim0..<lim}"
        and D: "snd ` set memo \<subseteq> {lim0..<lim}" and E: "\<forall>b<lim0. s b = s0 b"
        by (simp_all add: copy_inv_def)
      have C': "\<forall>b\<ge>lim0. daddrs ((s(lim := [])) b) \<subseteq> {lim0..<Suc lim}"
      proof (intro allI impI)
        fix b assume "lim0 \<le> b"
        with C have "daddrs (s b) \<subseteq> {lim0..<lim}" by blast
        then have "daddrs (s b) \<subseteq> {lim0..<Suc lim}" by auto
        then show "daddrs ((s(lim := [])) b) \<subseteq> {lim0..<Suc lim}"
          by (cases "b = lim") simp_all
      qed
      from D A have D': "snd ` set ((a, lim) # memo) \<subseteq> {lim0..<Suc lim}" by auto
      from A B E C' D' have i1: "copy_inv lim0 s0 ?st1"
        by (simp add: copy_inv_def)
      obtain e2 st2 where r2: "copy_items f lim (s a) ?st1 = (e2, st2)"
        by (cases "copy_items f lim (s a) ?st1")
      from inv st have "lim0 \<le> lim" by (simp add: copy_inv_def)
      with f i1 r2 have i2: "copy_inv lim0 s0 st2 \<and> fst (snd ?st1) \<le> fst (snd st2)"
        by (intro copy_items_inv [where f = f and y = lim and kvs = "s a" and e = e2]) simp_all
      from r st PDict None r2 have "st' = st2" "v = (case e2 of None \<Rightarrow> PDict lim | Some _ \<Rightarrow> PNone)"
        by (auto simp: deepcopy_body_def split: option.splits)
      with i2 st \<open>lim0 \<le> lim\<close> show ?thesis by (auto split: option.splits)
    qed
  next
    case (PList xs)
    obtain e2 ys st2 where r2: "copy_list f xs st = (e2, ys, st2)" by (cases "copy_list f xs st")
    with f inv have i2: "copy_inv lim0 s0 st2 \<and> fst (snd st) \<le> fst (snd st2)
         \<and> (\<forall>y\<in>set ys. vaddrs y \<subseteq> {lim0..<fst (snd st2)})"
      by (intro copy_list_inv)
    from r st PList r2 have "st' = st2" "v = (case e2 of None \<Rightarrow> PList ys | Some _ \<Rightarrow> PNone)"
      by (auto simp: deepcopy_body_def split: option.splits)
    with i2 show ?thesis by (auto split: option.splits)
  qed (use r st inv in \<open>auto simp: deepcopy_body_def\<close>)
qed

lemma deepcopy_at_copies: "copies lim0 s0 (deepcopy_at d)"
proof (induction d)
  case 0
  show ?case by (auto simp: copies_def)
next
  case (Suc d)
  then show ?case by (simp add: deepcopy_body_copies)
qed


lemma init_frame:
  assumes ok: "heap_ok (s, lim)"
    and r: "GeminiJsonSchema_init dc x (s, lim) = (r, (s1, lim1))"
  shows "(\<forall>a<lim. s1 a = s a)
     \<and> (\<forall>self. r = Inr self \<longrightarrow>
           vaddrs (js_schema self) \<subseteq> {a. lim \<le> a} \<and> vaddrs (js_defs self) \<subseteq> {a. lim \<le> a}
           \<and> closed {a. lim \<le> a} s1)"
proof -
  obtain e c s' lim' memo where dc: "deepcopy_at dc x (s, lim, []) = (e, c, (s', lim', memo))"
    by (cases "deepcopy_at dc x (s, lim, [])") auto
  from ok have i0: "copy_inv lim s (s, lim, [])"
    by (simp add: heap_ok_def copy_inv_def)
  note copiesD [OF deepcopy_at_copies i0 dc]
  then have inv: "copy_inv lim s (s', lim', memo)"
    and c: "vaddrs c \<subseteq> {lim..<lim'}"
    by simp_all
  from inv have A: "lim \<le> lim'" and C: "\<forall>b\<ge>lim. daddrs (s' b) \<subseteq> {lim..<lim'}"
    and E: "\<forall>b<lim. s' b = s b"
    by (simp_all add: copy_inv_def)
  show ?thesis
  proof (cases e)
    case (Some err)
    with r dc E show ?thesis by (auto simp: GeminiJsonSchema_init_def)
  next
    case None
    show ?thesis
    proof (cases "\<exists>a. c = PDict a")
      case False
      with r dc None E show ?thesis
        by (cases c) (auto simp: GeminiJsonSchema_init_def)
    next
      case True
      then obtain a where a: "c = PDict a" by blast
      with c have a_new: "lim \<le> a" by simp
      let ?s2 = "s'(lim' := [])"
      have cl: "closed {a. lim \<le> a} ?s2"
        unfolding closed_def
      proof
        fix b assume "b \<in> {a. lim \<le> a}"
        then have "lim \<le> b" by simp
        with C have "daddrs (s' b) \<subseteq> {lim..<lim'}" by blast
        then have "daddrs (?s2 b) \<subseteq> {lim..<lim'}" by (cases "b = lim'") simp_all
        then show "daddrs (?s2 b) \<subseteq> {a. lim \<le> a}" by auto
      qed
      have fr: "\<forall>b<lim. ?s2 b = s b" using A E by simp
      show ?thesis
      proof (cases "map_of (?s2 a) ''$defs''")
        case nodefs: None
        with r dc None a have "r = Inr \<lparr>js_schema = PDict a, js_defs = PDict lim'\<rparr>" "s1 = ?s2"
          by (simp_all add: GeminiJsonSchema_init_def Let_def)
        with cl fr a_new A show ?thesis by simp
      next
        case (Some v)
        with r dc None a have rr: "r = Inr \<lparr>js_schema = PDict a, js_defs = v\<rparr>"
          "s1 = pop a ''$defs'' ?s2"
          by (simp_all add: GeminiJsonSchema_init_def Let_def)
        from Some have "(''$defs'', v) \<in> set (?s2 a)" by (rule map_of_SomeD)
        with cl a_new have "vaddrs v \<subseteq> {a. lim \<le> a}"
          by (intro closed_mem [where s = ?s2 and a = a]) simp_all
        moreover from cl have "closed {a. lim \<le> a} (pop a ''$defs'' ?s2)" by (rule closed_pop)
        moreover have "\<forall>b<lim. pop a ''$defs'' ?s2 b = s b"
          using fr a_new by (simp add: pop_other)
        ultimately show ?thesis using rr a_new by simp
      qed
    qed
  qed
qed

text \<open>
  Claim C8. Whatever the schema is, and whether the constructor and \<^verbatim>\<open>simplify\<close>
  return or raise, every dictionary that existed before the call holds afterwards what it
  held before: the simplifier works on the copy, which lies at new addresses.
\<close>

theorem simplified_schema_frame:
  "heap_ok (s, lim) \<Longrightarrow> a < lim \<Longrightarrow>
   fst (snd (simplified_schema dc d json_schema (s, lim))) a = s a"
proof -
  assume ok: "heap_ok (s, lim)" and a: "a < lim"
  obtain r s1 lim1 where i: "GeminiJsonSchema_init dc json_schema (s, lim) = (r, (s1, lim1))"
    by (cases "GeminiJsonSchema_init dc json_schema (s, lim)") auto
  from ok i have fr: "\<forall>a<lim. s1 a = s a"
    and cl: "\<forall>self. r = Inr self \<longrightarrow>
           vaddrs (js_schema self) \<subseteq> {a. lim \<le> a} \<and> vaddrs (js_defs self) \<subseteq> {a. lim \<le> a}
           \<and> closed {a. lim \<le> a} s1"
    using init_frame by blast+
  show ?thesis
  proof (cases r)
    case (Inl e)
    with i fr a show ?thesis by (simp add: simplified_schema_def)
  next
    case (Inr self)
    with cl have sc: "vaddrs (js_schema self) \<subseteq> {a. lim \<le> a}"
      and df: "vaddrs (js_defs self) \<subseteq> {a. lim \<le> a}"
      and c1: "closed {a. lim \<le> a} s1"
      by simp_all
    from df have "methods_frame {a. lim \<le> a} (methods_at d (js_defs self))"
      by (rule methods_at_frame)
    with sc have "preserves {a. lim \<le> a} (m_simplify (methods_at d (js_defs self)) (js_schema self) [])"
      by (simp add: methods_frame_def)
    with c1 a have
      "snd (m_simplify (methods_at d (js_defs self)) (js_schema self) [] s1) a = s1 a"
      by (simp add: preserves_def)
    moreover obtain e2 s2 where
      "m_simplify (methods_at d (js_defs self)) (js_schema self) [] s1 = (e2, s2)"
      by (cases "m_simplify (methods_at d (js_defs self)) (js_schema self) [] s1")
    ultimately show ?thesis using i Inr fr a
      by (cases e2) (simp_all add: simplified_schema_def simplify_def simplify_node_def)
  qed
qed

theorem simplified_schema_frame_witness:
  "heap_ok (example_store, 3) \<and> (0::nat) < 3
   \<and> fst (snd (simplified_schema 20 20 (PDict 0) (example_store, 3))) 0 = example_store 0
   \<and> example_store 0 = [(''title'', PStr ''T''), (''type'', PStr ''object''),
            (''additionalProperties'', PBool False), (''properties'', PDict 1)]
   \<and> fst (snd (simplified_schema 20 20 (PDict 0) (example_store, 3))) 3 =
       [(''type'', PStr ''object''), (''properties'', PDict 4)]"
proof -
  have ok: "heap_ok (example_store, 3)"
    by (simp add: heap_ok_def example_store_def)
  have "fst (snd (simplified_schema 20 20 (PDict 0) (example_store, 3))) 3 =
       [(''type'', PStr ''object''), (''properties'', PDict 4)]"
    by (simp add: run example_store_def)
  moreover have "example_store 0 = [(''title'', PStr ''T''), (''type'', PStr ''object''),
            (''additionalProperties'', PBool False), (''properties'', PDict 1)]"
    by (simp add: example_store_def)
  ultimately show ?thesis
    using ok simplified_schema_frame [OF ok, of 0 20 20 "PDict 0"] by simp
qed

subsection \<open>Recursive references\<close>

text \<open>
  Three dictionaries that refer to each other in a circle, a node \<open>p\<close> whose
  \<^verbatim>\<open>anyOf\<close> holds an object node \<open>m\<close> whose property is \<open>p\<close> again, make
  \<^verbatim>\<open>_simplify\<close> use up every frame it is given, on \<open>p\<close> and on \<open>m\<close>.
\<close>

lemma cycle_unbounded:
  assumes "s q = [(''p'', PDict p)]"
    and "s p = [(''anyOf'', PList [PDict m])]"
    and "s m = [(''type'', PStr ''object''), (''properties'', PDict q)]"
  shows "m_simplify (methods_at n defs) (PDict p) refs_stack s = (Some RecursionError, s)"
proof (induction n rule: less_induct)
  case (less n)
  consider "n = 0" | "n = Suc 0" | "n = Suc (Suc 0)" | k where "n = Suc (Suc (Suc k))"
    by (metis not0_implies_Suc)
  then show ?case
  proof cases
    case 1
    then show ?thesis by (simp add: exec)
  next
    case 2
    then show ?thesis using assms by (simp add: exec)
  next
    case 3
    then show ?thesis using assms by (simp add: exec)
  next
    case 4
    then have "m_simplify (methods_at k defs) (PDict p) refs_stack s = (Some RecursionError, s)"
      using less by simp
    with 4 show ?thesis using assms by (simp add: exec)
  qed
qed


lemmas copy_exec =
  GeminiJsonSchema_init_def deepcopy_at_numeral deepcopy_body_def recursive_store_def Let_def
  pop_def no_pop_def

lemma init_result:
  "GeminiJsonSchema_init 20 (PDict 0) (recursive_store, 10) =
     (Inr \<lparr>js_schema = PDict 10, js_defs = PDict 14\<rparr>, (recursive_copy, 21))"
proof -
  have "fst (GeminiJsonSchema_init 20 (PDict 0) (recursive_store, 10)) =
          Inr \<lparr>js_schema = PDict 10, js_defs = PDict 14\<rparr>"
    by (simp add: copy_exec)
  moreover have "snd (snd (GeminiJsonSchema_init 20 (PDict 0) (recursive_store, 10))) = 21"
    by (simp add: copy_exec)
  ultimately show ?thesis
    by (simp add: recursive_copy_def prod_eq_iff)
qed

lemma recursive_copy_cells:
  "recursive_copy 10 = [(''type'', PStr ''object''), (''properties'', PDict 11)]"
  "recursive_copy 11 = [(''q'', PDict 12)]"
  "recursive_copy 12 = [(''anyOf'', PList [PDict 13])]"
  "recursive_copy 13 = [(''$ref'', PStr ''#/$defs/A'')]"
  "recursive_copy 14 = [(''A'', PDict 15), (''B'', PDict 19)]"
  "recursive_copy 15 = [(''type'', PStr ''object''), (''properties'', PDict 16)]"
  "recursive_copy 16 = [(''p'', PDict 17)]"
  "recursive_copy 17 = [(''$ref'', PStr ''#/$defs/B''), (''anyOf'', PList [PDict 18])]"
  "recursive_copy 18 = [(''$ref'', PStr ''#/$defs/A'')]"
  "recursive_copy 19 = []"
  by (simp_all add: recursive_copy_def copy_exec)




lemma cycle_unbounded_inner:
  assumes "s q = [(''p'', PDict p)]"
    and "s p = [(''anyOf'', PList [PDict m])]"
    and "s m = [(''type'', PStr ''object''), (''properties'', PDict q)]"
  shows "m_simplify (methods_at n defs) (PDict m) refs_stack s = (Some RecursionError, s)"
proof -
  consider "n = 0" | "n = Suc 0" | k where "n = Suc (Suc k)"
    by (metis not0_implies_Suc)
  then show ?thesis
  proof cases
    case 1
    then show ?thesis by (simp add: exec)
  next
    case 2
    then show ?thesis using assms by (simp add: exec)
  next
    case 3
    have "m_simplify (methods_at k defs) (PDict p) refs_stack s = (Some RecursionError, s)"
      using assms by (rule cycle_unbounded)
    with 3 show ?thesis using assms by (simp add: exec)
  qed
qed

lemma deep_run:
  "fst (simplify_node (Suc (Suc (Suc (Suc (Suc (Suc (Suc (Suc (Suc (Suc n))))))))))
          (PDict 14) (PDict 10) [] recursive_copy) = Some RecursionError"
  by (simp add: simplify_node_def exec recursive_copy_cells cycle_unbounded_inner [of _ 16 17 18])

lemma shallow_run:
  "d < 10 \<Longrightarrow> fst (simplify_node d (PDict 14) (PDict 10) [] recursive_copy) = Some RecursionError"
proof -
  assume "d < 10"
  then consider "d = 0" | "d = Suc 0" | "d = Suc (Suc 0)" | "d = Suc (Suc (Suc 0))" | "d = Suc (Suc (Suc (Suc 0)))" | "d = Suc (Suc (Suc (Suc (Suc 0))))" | "d = Suc (Suc (Suc (Suc (Suc (Suc 0)))))" | "d = Suc (Suc (Suc (Suc (Suc (Suc (Suc 0))))))" | "d = Suc (Suc (Suc (Suc (Suc (Suc (Suc (Suc 0)))))))" | "d = Suc (Suc (Suc (Suc (Suc (Suc (Suc (Suc (Suc 0))))))))"
    by atomize_elim arith
  then show ?thesis
    by cases (simp_all add: simplify_node_def exec recursive_copy_cells)
qed

text \<open>
  Claim C2 fails on the code. The schema of \<open>recursive_store\<close> has a definition that
  refers to itself. The first pass over the definition \<open>A\<close> returns at the
  \<^verbatim>\<open>$ref\<close> of the property \<open>p\<close> and never looks at the \<^verbatim>\<open>anyOf\<close> beside it. The
  loop \<^verbatim>\<open>for schema in any_of\<close> of the property \<open>q\<close> then leaves \<^verbatim>\<open>schema\<close> bound to
  the node that has just been replaced by \<open>A\<close>, and \<^verbatim>\<open>_object\<close> goes through the
  properties of \<open>A\<close> again, now with an empty \<^verbatim>\<open>refs_stack\<close>: the reference to \<open>A\<close>
  inside \<open>A\<close> is resolved, which closes a circle in the store, and \<^verbatim>\<open>_simplify\<close> goes
  round it. With any number \<open>d\<close> of frames the call ends with \<^verbatim>\<open>RecursionError\<close>: it
  neither returns nor raises the \<open>UserError\<close> for recursive references. (The copy
  of this schema needs five nested calls; it is given twenty.)
\<close>

theorem recursive_ref_unbounded:
  "fst (simplified_schema 20 d (PDict 0) (recursive_store, 10)) = Inl RecursionError"
proof -
  have "fst (simplify_node d (PDict 14) (PDict 10) [] recursive_copy) = Some RecursionError"
  proof (cases "d < 10")
    case True
    then show ?thesis by (rule shallow_run)
  next
    case False
    define n where "n = d - 10"
    with False have "d = Suc (Suc (Suc (Suc (Suc (Suc (Suc (Suc (Suc (Suc n)))))))))"
      by arith
    then show ?thesis by (simp only: deep_run)
  qed
  then show ?thesis
    by (cases "simplify_node d (PDict 14) (PDict 10) [] recursive_copy")
       (simp add: simplified_schema_def init_result simplify_def)
qed

end
